theory Spec2Isabelle
  imports Main
begin

section \<open>Values of the two route handlers\<close>

text \<open>
  The repository has two HTTP route handlers, \<^verbatim>\<open>app/seed/route.ts\<close> and
  \<^verbatim>\<open>app/query/route.ts\<close>. Both talk to a SQL client, and the seed route also to a
  password hash. This theory embeds the handlers as functions that pass the state of the
  world along: every \<^verbatim>\<open>await\<close> that can reject is a branch with result \<open>Inl\<close>.
\<close>

text \<open>A JavaScript \<^verbatim>\<open>Error\<close> with its message.\<close>

datatype error = Error string

text \<open>
  Modelled from the spec: the placeholder dataset of \<^verbatim>\<open>../lib/placeholder-data\<close>, which the
  seed route imports and which is not among the source files. Its four sequences are a
  parameter \<open>P\<close> of the seed functions; the fields are the ones \<^verbatim>\<open>route.ts\<close> reads.
\<close>

record user =
  u_id :: string
  u_name :: string
  u_email :: string
  u_password :: string

record customer =
  c_id :: string
  c_name :: string
  c_email :: string
  c_image_url :: string

record invoice =
  i_customer_id :: string
  i_amount :: int
  i_status :: string
  i_date :: string

record revenue_entry =
  r_month :: string
  r_revenue :: int

record placeholder_data =
  users :: "user list"
  customers :: "customer list"
  invoices :: "invoice list"
  revenue :: "revenue_entry list"

text \<open>
  The SQL statements of the two files, one constructor for each template literal, with
  the interpolated parameters as arguments, in the order of the \<^verbatim>\<open>VALUES\<close> list.
\<close>

datatype stmt =
    BEGIN
  | COMMIT
  | ROLLBACK
  | CREATE_EXTENSION
  | CREATE_TABLE_users
  | CREATE_TABLE_invoices
  | CREATE_TABLE_customers
  | CREATE_TABLE_revenue
  | INSERT_users string string string string
  | INSERT_invoices string int string string
  | INSERT_customers string string string string
  | INSERT_revenue string int
  | SELECT_invoices

text \<open>A row of the query of \<^verbatim>\<open>listInvoices\<close>: the columns \<^verbatim>\<open>invoices.amount, customers.name\<close>.\<close>

record invoice_row =
  amount :: int
  name :: string

type_synonym query_result = "invoice_row list"

text \<open>
  The collaborators outside the repository, as the handlers use them: \<^verbatim>\<open>db.connect()\<close>,
  \<^verbatim>\<open>client.sql\<close>, \<^verbatim>\<open>client.release()\<close> and \<^verbatim>\<open>bcrypt.hash\<close>. Each acts on a state \<open>'x\<close>
  of its own (the database, the connection pool, the salt source) and each of the three
  asynchronous ones may reject.

  \<^verbatim>\<open>bcrypt.hash\<close> computes away from the event loop, so hashes that are requested together
  may settle in any order. \<open>settles\<close> is that order for the hashes of one fan-out: positions
  of the array, the position whose hash settles first at the head. It is not under the
  control of the program, and everything below holds for every value of it.
\<close>

record 'x env =
  db_connect :: "'x \<Rightarrow> (error + unit) \<times> 'x"
  client_sql :: "stmt \<Rightarrow> 'x \<Rightarrow> (error + query_result) \<times> 'x"
  client_release :: "'x \<Rightarrow> 'x"
  bcrypt_hash :: "string \<Rightarrow> nat \<Rightarrow> 'x \<Rightarrow> (error + string) \<times> 'x"
  settles :: "nat list"

text \<open>
  One call of a handler to a collaborator, with what it answered. The client of the seed
  route is one session, which takes up the statements one after the other in the order of
  the calls to \<^verbatim>\<open>client.sql\<close>; the list of calls has them in that order.
\<close>

datatype call =
    Connect "error + unit"
  | Sql stmt "error + query_result"
  | Release
  | Hash string nat "error + string"

text \<open>
  The world a handler runs in: the state of the collaborators, the calls made so far in
  the order they were made, the lines written with \<^verbatim>\<open>console.error\<close> (message and error
  object), and the callbacks of the users fan-out that are still in flight (each with the
  outcome of its hash, in the order in which the hashes settle) once \<^verbatim>\<open>Promise.all\<close> has
  rejected.
\<close>

record 'x world =
  ext :: 'x
  calls :: "call list"
  console :: "(string \<times> error) list"
  pending :: "(user \<times> (error + string)) list"

definition console_error :: "string \<Rightarrow> error \<Rightarrow> 'x world \<Rightarrow> 'x world" where
  "console_error msg e w = w\<lparr>console := console w @ [(msg, e)]\<rparr>"

definition connect :: "'x env \<Rightarrow> 'x world \<Rightarrow> (error + unit) \<times> 'x world" where
  "connect E w =
     (case db_connect E (ext w) of
        (r, x) \<Rightarrow> (r, w\<lparr>ext := x, calls := calls w @ [Connect r]\<rparr>))"

definition sql :: "'x env \<Rightarrow> stmt \<Rightarrow> 'x world \<Rightarrow> (error + query_result) \<times> 'x world" where
  "sql E s w =
     (case client_sql E s (ext w) of
        (r, x) \<Rightarrow> (r, w\<lparr>ext := x, calls := calls w @ [Sql s r]\<rparr>))"

definition release :: "'x env \<Rightarrow> 'x world \<Rightarrow> 'x world" where
  "release E w = w\<lparr>ext := client_release E (ext w), calls := calls w @ [Release]\<rparr>"

definition hash :: "'x env \<Rightarrow> string \<Rightarrow> nat \<Rightarrow> 'x world \<Rightarrow> (error + string) \<times> 'x world" where
  "hash E p c w =
     (case bcrypt_hash E p c (ext w) of
        (r, x) \<Rightarrow> (r, w\<lparr>ext := x, calls := calls w @ [Hash p c r]\<rparr>))"

text \<open>\<^verbatim>\<open>await m; rest\<close>: a rejection of \<open>m\<close> is thrown on, and \<open>rest\<close> does not run.\<close>

definition and_then ::
  "('e + 'a) \<times> 's \<Rightarrow> ('a \<Rightarrow> 's \<Rightarrow> ('e + 'b) \<times> 's) \<Rightarrow> ('e + 'b) \<times> 's" where
  "and_then m f = (case m of (Inl e, s) \<Rightarrow> (Inl e, s) | (Inr a, s) \<Rightarrow> f a s)"

section \<open>The Response object and JSON.stringify\<close>

record response =
  status :: nat
  headers :: "(string \<times> string) list"
  body :: string

definition ascii_lower :: "char \<Rightarrow> char" where
  "ascii_lower c =
     (if 65 \<le> (of_char c :: nat) \<and> (of_char c :: nat) \<le> 90
      then char_of (of_char c + (32 :: nat)) else c)"

text \<open>
  \<^verbatim>\<open>new Response(body, {status, headers})\<close> with a string body, after the Fetch standard:
  the status is 200 when none is given, header names are lower-cased, and a response
  whose headers name no content type gets that of its body, which for a string is
  \<^verbatim>\<open>text/plain;charset=UTF-8\<close>.
\<close>

definition Response_new :: "string \<Rightarrow> nat option \<Rightarrow> (string \<times> string) list \<Rightarrow> response" where
  "Response_new b st hs =
     \<lparr>status = (case st of None \<Rightarrow> 200 | Some n \<Rightarrow> n),
      headers =
        (if ''content-type'' \<in> set (map (\<lambda>h. map ascii_lower (fst h)) hs)
         then map (\<lambda>h. (map ascii_lower (fst h), snd h)) hs
         else map (\<lambda>h. (map ascii_lower (fst h), snd h)) hs
                @ [(''content-type'', ''text/plain;charset=UTF-8'')]),
      body = b\<rparr>"

definition content_type :: "response \<Rightarrow> string option" where
  "content_type r = map_of (headers r) ''content-type''"

datatype json =
    JNumber int
  | JString string
  | JArray "json list"
  | JObject "(string \<times> json) list"

fun digits :: "nat \<Rightarrow> string" where
  "digits n =
     (if n < 10 then [char_of (48 + n)]
      else digits (n div 10) @ [char_of (48 + n mod 10)])"

declare digits.simps [simp del]

definition hex_digit :: "nat \<Rightarrow> char" where
  "hex_digit n = (if n < 10 then char_of (48 + n) else char_of (87 + n))"

text \<open>The escapes of \<^verbatim>\<open>JSON.stringify\<close> (ECMAScript QuoteJSONString) for one character.\<close>

definition quote_char :: "char \<Rightarrow> string" where
  "quote_char c =
     (if c = CHR 0x22 then [CHR 0x5C, CHR 0x22]
      else if c = CHR 0x5C then [CHR 0x5C, CHR 0x5C]
      else if c = CHR 0x08 then [CHR 0x5C, CHR ''b'']
      else if c = CHR 0x0C then [CHR 0x5C, CHR ''f'']
      else if c = CHR 0x0A then [CHR 0x5C, CHR ''n'']
      else if c = CHR 0x0D then [CHR 0x5C, CHR ''r'']
      else if c = CHR 0x09 then [CHR 0x5C, CHR ''t'']
      else if (of_char c :: nat) < 32
        then [CHR 0x5C, CHR ''u'', CHR ''0'', CHR ''0'',
              hex_digit (of_char c div 16), hex_digit (of_char c mod 16)]
      else [c])"

fun separate :: "string \<Rightarrow> string list \<Rightarrow> string" where
  "separate sep [] = []"
| "separate sep [x] = x"
| "separate sep (x # y # ys) = x @ sep @ separate sep (y # ys)"

fun JSON_stringify :: "json \<Rightarrow> string" where
  "JSON_stringify (JNumber n) =
     (if n < 0 then CHR ''-'' # digits (nat (- n)) else digits (nat n))"
| "JSON_stringify (JString s) = CHR 0x22 # concat (map quote_char s) @ [CHR 0x22]"
| "JSON_stringify (JArray xs) =
     ''['' @ separate '','' (map (\<lambda>x. JSON_stringify x) xs) @ '']''"
| "JSON_stringify (JObject kvs) =
     ''{'' @ separate '',''
        (map (\<lambda>kv. JSON_stringify (JString (fst kv)) @ '':'' @ JSON_stringify (snd kv)) kvs)
      @ ''}''"

text \<open>The rows of a query result as the JavaScript value the client hands back.\<close>

definition row_json :: "invoice_row \<Rightarrow> json" where
  "row_json r = JObject [(''amount'', JNumber (amount r)), (''name'', JString (name r))]"

definition rows_json :: "query_result \<Rightarrow> json" where
  "rows_json rows = JArray (map row_json rows)"

section \<open>app/query/route.ts\<close>

text \<open>
  \<^verbatim>\<open>listInvoices\<close> (lines 3 to 23, and again 45 to 65): the connection is acquired before
  the \<^verbatim>\<open>try\<close>, so a failed \<^verbatim>\<open>db.connect()\<close> leaves the function at once; inside the
  \<^verbatim>\<open>try\<close> a failed query is logged and thrown again; \<^verbatim>\<open>finally\<close> releases the client
  on both ways out.
\<close>

definition listInvoices :: "'x env \<Rightarrow> 'x world \<Rightarrow> (error + query_result) \<times> 'x world" where
  "listInvoices E w =
     and_then (connect E w) (\<lambda>_ w1.
       (case sql E SELECT_invoices w1 of
          (Inr rows, w2) \<Rightarrow> (Inr rows, release E w2)
        | (Inl e, w2) \<Rightarrow>
            (Inl e, release E (console_error ''Error querying the database:'' e w2))))"

text \<open>The body of the failure response: \<^verbatim>\<open>JSON.stringify({ error: 'Failed to fetch invoices' })\<close>.\<close>

definition failed_to_fetch :: string where
  "failed_to_fetch = JSON_stringify (JObject [(''error'', JString ''Failed to fetch invoices'')])"

text \<open>\<^verbatim>\<open>GET\<close> of lines 26 to 41: the responses carry a status and no headers.\<close>

definition GET_query :: "'x env \<Rightarrow> 'x world \<Rightarrow> response \<times> 'x world" where
  "GET_query E w =
     (case listInvoices E w of
        (Inr rows, w1) \<Rightarrow> (Response_new (JSON_stringify (rows_json rows)) (Some 200) [], w1)
      | (Inl e, w1) \<Rightarrow> (Response_new failed_to_fetch (Some 500) [], w1))"

text \<open>\<^verbatim>\<open>GET\<close> of lines 68 to 85: the same, with a \<^verbatim>\<open>Content-Type\<close> header on both responses.\<close>

definition GET_query_2 :: "'x env \<Rightarrow> 'x world \<Rightarrow> response \<times> 'x world" where
  "GET_query_2 E w =
     (case listInvoices E w of
        (Inr rows, w1) \<Rightarrow>
          (Response_new (JSON_stringify (rows_json rows)) (Some 200)
             [(''Content-Type'', ''application/json'')], w1)
      | (Inl e, w1) \<Rightarrow>
          (Response_new failed_to_fetch (Some 500)
             [(''Content-Type'', ''application/json'')], w1))"

section \<open>app/seed/route.ts\<close>

text \<open>
  The seed route has one client, connected when the module is loaded, so the functions
  below start from a connected client. The client is one database session: it sends the
  statements it is given one after the other, in the order of the calls.

  \<^verbatim>\<open>Promise.all(xs.map(async (x) => ...))\<close> starts the callback of every element in array
  order. In the customers, invoices and revenue steps each callback calls \<^verbatim>\<open>client.sql\<close>
  at once, so the statements reach the session in array order, and each callback ends
  (with the result, or with \<^verbatim>\<open>undefined\<close> after logging) when its statement does.
\<close>

fun fan_out :: "('a \<Rightarrow> 's \<Rightarrow> 'r \<times> 's) \<Rightarrow> 'a list \<Rightarrow> 's \<Rightarrow> 'r list \<times> 's" where
  "fan_out f [] s = ([], s)"
| "fan_out f (x # xs) s =
     (case f x s of (r, s1) \<Rightarrow> (case fan_out f xs s1 of (rs, s2) \<Rightarrow> (r # rs, s2)))"

text \<open>
  \<^verbatim>\<open>try { return await client.sql`...` } catch (err) { console.error(msg, err) }\<close>: the body of
  every row callback. A rejected statement is logged and the callback yields
  \<^verbatim>\<open>undefined\<close>, here \<open>None\<close>.
\<close>

definition try_insert :: "'x env \<Rightarrow> stmt \<Rightarrow> string \<Rightarrow> 'x world \<Rightarrow> query_result option \<times> 'x world" where
  "try_insert E s msg w =
     (case sql E s w of
        (Inr res, w1) \<Rightarrow> (Some res, w1)
      | (Inl err, w1) \<Rightarrow> (None, console_error msg err w1))"

definition createExtensions :: "'x env \<Rightarrow> 'x world \<Rightarrow> (error + unit) \<times> 'x world" where
  "createExtensions E w = and_then (sql E CREATE_EXTENSION w) (\<lambda>_ w1. (Inr (), w1))"

definition insert_user :: "'x env \<Rightarrow> user \<Rightarrow> string \<Rightarrow> 'x world \<Rightarrow> query_result option \<times> 'x world" where
  "insert_user E u hashedPassword =
     try_insert E (INSERT_users (u_id u) (u_name u) (u_email u) hashedPassword)
       (''Error inserting user: '' @ u_email u)"

text \<open>
  The order in which the hashes of \<open>n\<close> callbacks settle, read from \<open>settles\<close>: the
  positions below \<open>n\<close> that it lists, each once, and after them the positions it does not
  list, in array order. Every order of the \<open>n\<close> positions is the reading of some list
  (of itself), and every list has a reading.
\<close>

definition settle_order :: "nat list \<Rightarrow> nat \<Rightarrow> nat list" where
  "settle_order s n = remdups (filter (\<lambda>i. i < n) s) @ filter (\<lambda>i. i \<notin> set s) [0..<n]"

text \<open>The elements of an array in the order in which the hashes of their callbacks settle.\<close>

definition settled :: "'x env \<Rightarrow> 'a list \<Rightarrow> 'a list" where
  "settled E xs = map (\<lambda>i. xs ! i) (settle_order (settles E) (length xs))"

text \<open>
  The callbacks of the users step first await \<^verbatim>\<open>bcrypt.hash(user.password, 10)\<close>, outside
  the \<^verbatim>\<open>try\<close> (lines 37 to 48). Each callback goes on when its own hash settles, so
  \<open>user_callbacks\<close> takes the callbacks in that order, each with its position \<open>i\<close> in the
  array and the outcome of its hash. A callback whose hash was computed sends its insert,
  and its result becomes element \<open>i\<close> of the array that \<^verbatim>\<open>Promise.all\<close> resolves to when
  every callback has ended. A callback whose hash failed rejects, which rejects
  \<^verbatim>\<open>Promise.all\<close> and so the step at that moment; the callbacks whose hashes have not
  settled by then are still in flight, and are added to \<open>pending\<close>.
\<close>

fun user_callbacks ::
  "'x env \<Rightarrow> (nat \<times> user \<times> (error + string)) list \<Rightarrow> query_result option list \<Rightarrow> 'x world
     \<Rightarrow> (error + query_result option list) \<times> 'x world" where
  "user_callbacks E [] vals w = (Inr vals, w)"
| "user_callbacks E ((i, u, Inl e) # rest) vals w =
     (Inl e, w\<lparr>pending := pending w @ map snd rest\<rparr>)"
| "user_callbacks E ((i, u, Inr h) # rest) vals w =
     (case insert_user E u h w of (r, w1) \<Rightarrow> user_callbacks E rest (vals[i := r]) w1)"

text \<open>
  \<^verbatim>\<open>seedUsers\<close>, lines 24 to 52: the table, then \<^verbatim>\<open>users.map\<close> starts every callback, which
  requests the hashes in array order, then the callbacks go on in the order in which their
  hashes settle.
\<close>

definition seedUsers ::
  "'x env \<Rightarrow> placeholder_data \<Rightarrow> 'x world \<Rightarrow> (error + query_result option list) \<times> 'x world" where
  "seedUsers E P w =
     and_then (sql E CREATE_TABLE_users w) (\<lambda>_ w1.
       (case fan_out (\<lambda>u. hash E (u_password u) 10) (users P) w1 of
          (hs, w2) \<Rightarrow>
            user_callbacks E (settled E (enumerate 0 (zip (users P) hs)))
              (replicate (length (users P)) None) w2))"

definition insert_invoice :: "'x env \<Rightarrow> invoice \<Rightarrow> 'x world \<Rightarrow> query_result option \<times> 'x world" where
  "insert_invoice E i =
     try_insert E (INSERT_invoices (i_customer_id i) (i_amount i) (i_status i) (i_date i))
       (''Error inserting invoice for customer: '' @ i_customer_id i)"

definition seedInvoices ::
  "'x env \<Rightarrow> placeholder_data \<Rightarrow> 'x world \<Rightarrow> (error + query_result option list) \<times> 'x world" where
  "seedInvoices E P w =
     and_then (sql E CREATE_TABLE_invoices w) (\<lambda>_ w1.
       (case fan_out (insert_invoice E) (invoices P) w1 of (rs, w2) \<Rightarrow> (Inr rs, w2)))"

definition insert_customer :: "'x env \<Rightarrow> customer \<Rightarrow> 'x world \<Rightarrow> query_result option \<times> 'x world" where
  "insert_customer E c =
     try_insert E (INSERT_customers (c_id c) (c_name c) (c_email c) (c_image_url c))
       (''Error inserting customer: '' @ c_email c)"

definition seedCustomers ::
  "'x env \<Rightarrow> placeholder_data \<Rightarrow> 'x world \<Rightarrow> (error + query_result option list) \<times> 'x world" where
  "seedCustomers E P w =
     and_then (sql E CREATE_TABLE_customers w) (\<lambda>_ w1.
       (case fan_out (insert_customer E) (customers P) w1 of (rs, w2) \<Rightarrow> (Inr rs, w2)))"

definition insert_revenue :: "'x env \<Rightarrow> revenue_entry \<Rightarrow> 'x world \<Rightarrow> query_result option \<times> 'x world" where
  "insert_revenue E r =
     try_insert E (INSERT_revenue (r_month r) (r_revenue r))
       (''Error inserting revenue for month: '' @ r_month r)"

definition seedRevenue ::
  "'x env \<Rightarrow> placeholder_data \<Rightarrow> 'x world \<Rightarrow> (error + query_result option list) \<times> 'x world" where
  "seedRevenue E P w =
     and_then (sql E CREATE_TABLE_revenue w) (\<lambda>_ w1.
       (case fan_out (insert_revenue E) (revenue P) w1 of (rs, w2) \<Rightarrow> (Inr rs, w2)))"

text \<open>The \<^verbatim>\<open>try\<close> block of \<^verbatim>\<open>GET\<close>, lines 155 to 164.\<close>

definition seed_try :: "'x env \<Rightarrow> placeholder_data \<Rightarrow> 'x world \<Rightarrow> (error + response) \<times> 'x world" where
  "seed_try E P w =
     and_then (sql E BEGIN w) (\<lambda>_ w1.
     and_then (createExtensions E w1) (\<lambda>_ w2.
     and_then (seedUsers E P w2) (\<lambda>_ w3.
     and_then (seedCustomers E P w3) (\<lambda>_ w4.
     and_then (seedInvoices E P w4) (\<lambda>_ w5.
     and_then (seedRevenue E P w5) (\<lambda>_ w6.
     and_then (sql E COMMIT w6) (\<lambda>_ w7.
       (Inr (Response_new ''Database seeded successfully'' None []), w7))))))))"

text \<open>
  \<^verbatim>\<open>GET\<close>, lines 153 to 169. The \<^verbatim>\<open>catch\<close> block awaits the \<^verbatim>\<open>ROLLBACK\<close> statement
  first; when that one is rejected too, the handler itself rejects (\<open>Inl\<close>) and neither
  logs nor builds a response.
\<close>

definition GET_seed :: "'x env \<Rightarrow> placeholder_data \<Rightarrow> 'x world \<Rightarrow> (error + response) \<times> 'x world" where
  "GET_seed E P w =
     (case seed_try E P w of
        (Inr r, w1) \<Rightarrow> (Inr r, w1)
      | (Inl e, w1) \<Rightarrow>
          and_then (sql E ROLLBACK w1) (\<lambda>_ w2.
            (Inr (Response_new ''Error seeding database'' (Some 500) []),
             console_error ''Error during database seeding:'' e w2)))"

text \<open>
  What the callbacks left in flight do when their hashes settle, after the step has been
  left: one whose hash was computed sends its insert, one whose hash failed rejects into a
  promise that has already been rejected.
\<close>

fun settle_pending :: "'x env \<Rightarrow> (user \<times> (error + string)) list \<Rightarrow> 'x world \<Rightarrow> 'x world" where
  "settle_pending E [] w = w"
| "settle_pending E ((u, Inl e) # rest) w = settle_pending E rest w"
| "settle_pending E ((u, Inr h) # rest) w = settle_pending E rest (snd (insert_user E u h w))"

section \<open>The database engine\<close>

text \<open>
  What the statements of the two files mean is fixed by the SQL they are written in, for
  a PostgreSQL session (\<^verbatim>\<open>@vercel/postgres\<close>). The engine below interprets exactly these
  statements, as far as the properties below need it: tables that exist or not, the types
  of the columns, the conflict clauses, the unique and foreign keys, the generated keys,
  and the transaction block.
\<close>

subsection \<open>The column types\<close>

text \<open>
  A parameter for a \<^verbatim>\<open>UUID\<close> column is read as PostgreSQL reads the text of a uuid:
  sixteen bytes of two hexadecimal digits each, in either case, a hyphen allowed after
  every second byte but the last, the whole optionally in braces. Anything else is
  rejected. The value is kept in the form PostgreSQL prints, lower case in groups of
  8, 4, 4, 4 and 12 digits, so that two texts of the same uuid are the same key.
\<close>

definition is_hex :: "char \<Rightarrow> bool" where
  "is_hex c = (c \<in> set ''0123456789abcdefABCDEF'')"

fun uuid_digits :: "nat \<Rightarrow> string \<Rightarrow> (string \<times> string) option" where
  "uuid_digits 0 s = Some ([], s)"
| "uuid_digits (Suc k) (a # b # s) =
     (if is_hex a \<and> is_hex b
      then map_option (\<lambda>(ds, rest). (ascii_lower a # ascii_lower b # ds, rest))
             (uuid_digits k (if even k \<and> 0 < k \<and> take 1 s = ''-'' then drop 1 s else s))
      else None)"
| "uuid_digits (Suc k) s = None"

definition uuid_out :: "string \<Rightarrow> string" where
  "uuid_out ds =
     take 8 ds @ ''-'' @ take 4 (drop 8 ds) @ ''-'' @ take 4 (drop 12 ds) @ ''-''
       @ take 4 (drop 16 ds) @ ''-'' @ drop 20 ds"

definition uuid_in :: "string \<Rightarrow> string option" where
  "uuid_in s =
     (case uuid_digits 16 (if take 1 s = ''{'' then drop 1 s else s) of
        None \<Rightarrow> None
      | Some (ds, rest) \<Rightarrow>
          if rest = (if take 1 s = ''{'' then ''}'' else []) then Some (uuid_out ds) else None)"

text \<open>
  A value for a \<^verbatim>\<open>VARCHAR(n)\<close> column: a text of more than \<open>n\<close> characters is rejected,
  unless all the characters beyond \<open>n\<close> are spaces, which are cut off. A value for an
  \<^verbatim>\<open>INT\<close> column is a 32-bit integer.
\<close>

definition varchar :: "nat \<Rightarrow> string \<Rightarrow> string option" where
  "varchar n s =
     (if length s \<le> n then Some s
      else if set (drop n s) \<subseteq> {CHR '' ''} then Some (take n s)
      else None)"

definition int4 :: "int \<Rightarrow> bool" where
  "int4 a = (- 2147483648 \<le> a \<and> a \<le> 2147483647)"

text \<open>
  The values of an insert as the row they make, or the error of the first value that
  does not fit its column. The \<^verbatim>\<open>TEXT\<close> columns take every text; what the \<^verbatim>\<open>DATE\<close>
  column takes is left to the parameter \<open>refuse\<close> of the session below.
\<close>

definition bad_uuid :: error where
  "bad_uuid = Error ''invalid input syntax for type uuid''"

definition bad_int :: error where
  "bad_int = Error ''value out of range for type integer''"

definition too_long :: error where
  "too_long = Error ''value too long for type character varying''"

definition users_values :: "string \<Rightarrow> string \<Rightarrow> string \<Rightarrow> string \<Rightarrow> error + user" where
  "users_values i n e p =
     (case uuid_in i of
        None \<Rightarrow> Inl bad_uuid
      | Some k \<Rightarrow>
          (case varchar 255 n of
             None \<Rightarrow> Inl too_long
           | Some n1 \<Rightarrow> Inr \<lparr>u_id = k, u_name = n1, u_email = e, u_password = p\<rparr>))"

definition customers_values :: "string \<Rightarrow> string \<Rightarrow> string \<Rightarrow> string \<Rightarrow> error + customer" where
  "customers_values i n e u =
     (case uuid_in i of
        None \<Rightarrow> Inl bad_uuid
      | Some k \<Rightarrow>
          (case (varchar 255 n, varchar 255 e, varchar 255 u) of
             (Some n1, Some e1, Some u1) \<Rightarrow>
               Inr \<lparr>c_id = k, c_name = n1, c_email = e1, c_image_url = u1\<rparr>
           | _ \<Rightarrow> Inl too_long))"

definition invoices_values :: "string \<Rightarrow> int \<Rightarrow> string \<Rightarrow> string \<Rightarrow> error + invoice" where
  "invoices_values c a s dt =
     (case uuid_in c of
        None \<Rightarrow> Inl bad_uuid
      | Some k \<Rightarrow>
          if \<not> int4 a then Inl bad_int
          else (case varchar 255 s of
                  None \<Rightarrow> Inl too_long
                | Some s1 \<Rightarrow>
                    Inr \<lparr>i_customer_id = k, i_amount = a, i_status = s1, i_date = dt\<rparr>))"

definition revenue_values :: "string \<Rightarrow> int \<Rightarrow> error + revenue_entry" where
  "revenue_values m r =
     (if \<not> int4 r then Inl bad_int
      else (case varchar 4 m of
              None \<Rightarrow> Inl too_long
            | Some m1 \<Rightarrow> Inr \<lparr>r_month = m1, r_revenue = r\<rparr>))"

subsection \<open>The session\<close>

record tables =
  uuid_ossp :: bool
  t_users :: "user list option"
  t_customers :: "customer list option"
  t_invoices :: "(nat \<times> invoice) list option"
  t_revenue :: "revenue_entry list option"

text \<open>
  A session: the tables as the session sees them, the tables as they were at \<^verbatim>\<open>BEGIN\<close>
  while a transaction block is open, whether a statement has failed inside the block, and
  the source of \<^verbatim>\<open>uuid_generate_v4()\<close> (a generated key is \<open>uuid_seq\<close>, which then moves on,
  so no key is generated twice).
\<close>

record pg =
  live :: tables
  snapshot :: "tables option"
  aborted :: bool
  uuid_seq :: nat

definition empty_tables :: tables where
  "empty_tables =
     \<lparr>uuid_ossp = False, t_users = None, t_customers = None, t_invoices = None, t_revenue = None\<rparr>"

definition fresh_pg :: pg where
  "fresh_pg = \<lparr>live = empty_tables, snapshot = None, aborted = False, uuid_seq = 0\<rparr>"

definition on_live :: "(tables \<Rightarrow> tables) \<Rightarrow> pg \<Rightarrow> pg" where
  "on_live f d = d\<lparr>live := f (live d)\<rparr>"

definition end_block :: "bool \<Rightarrow> pg \<Rightarrow> pg" where
  "end_block undo d =
     d\<lparr>live := (if undo then (case snapshot d of None \<Rightarrow> live d | Some t \<Rightarrow> t) else live d),
       snapshot := None, aborted := False\<rparr>"

text \<open>
  The tables as they are outside the open transaction block, if there is one: what
  \<^verbatim>\<open>ROLLBACK\<close> returns to.
\<close>

definition committed :: "pg \<Rightarrow> tables" where
  "committed d = (case snapshot d of None \<Rightarrow> live d | Some t \<Rightarrow> t)"

definition join_666 :: "(nat \<times> invoice) list \<Rightarrow> customer list \<Rightarrow> query_result" where
  "join_666 is cs =
     concat (map (\<lambda>i. concat (map (\<lambda>c.
        if i_customer_id (snd i) = c_id c \<and> i_amount (snd i) = 666
        then [\<lparr>amount = i_amount (snd i), name = c_name c\<rparr>] else []) cs)) is)"

text \<open>
  One statement on a session that accepts statements. \<^verbatim>\<open>CREATE ... IF NOT EXISTS\<close> leaves
  what exists alone; the users, customers and invoices tables need \<^verbatim>\<open>uuid_generate_v4()\<close>
  of the extension for their key default, and the invoices table needs the customers
  table it references. An insert into a table that is not there fails, and so does one
  with a value that does not fit its column. An insert with
  \<^verbatim>\<open>ON CONFLICT (key) DO NOTHING\<close> skips a row whose key is present, and fails on any
  other violated constraint: the unique email, the foreign key. The invoices insert names
  no \<^verbatim>\<open>id\<close>, so the key is generated. \<^verbatim>\<open>COMMIT\<close> of a block in which a statement failed
  undoes the block.
\<close>

fun pg_run :: "stmt \<Rightarrow> pg \<Rightarrow> error + (query_result \<times> pg)" where
  "pg_run BEGIN d =
     Inr ([], if snapshot d = None then d\<lparr>snapshot := Some (live d)\<rparr> else d)"
| "pg_run COMMIT d = Inr ([], end_block (aborted d) d)"
| "pg_run ROLLBACK d = Inr ([], end_block True d)"
| "pg_run CREATE_EXTENSION d = Inr ([], on_live (\<lambda>t. t\<lparr>uuid_ossp := True\<rparr>) d)"
| "pg_run CREATE_TABLE_users d =
     (if t_users (live d) \<noteq> None then Inr ([], d)
      else if uuid_ossp (live d) then Inr ([], on_live (\<lambda>t. t\<lparr>t_users := Some []\<rparr>) d)
      else Inl (Error ''function uuid_generate_v4() does not exist''))"
| "pg_run CREATE_TABLE_customers d =
     (if t_customers (live d) \<noteq> None then Inr ([], d)
      else if uuid_ossp (live d) then Inr ([], on_live (\<lambda>t. t\<lparr>t_customers := Some []\<rparr>) d)
      else Inl (Error ''function uuid_generate_v4() does not exist''))"
| "pg_run CREATE_TABLE_invoices d =
     (if t_invoices (live d) \<noteq> None then Inr ([], d)
      else if uuid_ossp (live d) then
        (if t_customers (live d) \<noteq> None
         then Inr ([], on_live (\<lambda>t. t\<lparr>t_invoices := Some []\<rparr>) d)
         else Inl (Error ''relation customers does not exist''))
      else Inl (Error ''function uuid_generate_v4() does not exist''))"
| "pg_run CREATE_TABLE_revenue d =
     (if t_revenue (live d) \<noteq> None then Inr ([], d)
      else Inr ([], on_live (\<lambda>t. t\<lparr>t_revenue := Some []\<rparr>) d))"
| "pg_run (INSERT_users i n e p) d =
     (case t_users (live d) of
        None \<Rightarrow> Inl (Error ''relation users does not exist'')
      | Some rows \<Rightarrow>
          (case users_values i n e p of
             Inl err \<Rightarrow> Inl err
           | Inr row \<Rightarrow>
               if u_id row \<in> set (map u_id rows) then Inr ([], d)
               else if u_email row \<in> set (map u_email rows)
                 then Inl (Error ''duplicate key value violates unique constraint users_email_key'')
               else Inr ([], on_live (\<lambda>t. t\<lparr>t_users := Some (rows @ [row])\<rparr>) d)))"
| "pg_run (INSERT_customers i n e u) d =
     (case t_customers (live d) of
        None \<Rightarrow> Inl (Error ''relation customers does not exist'')
      | Some rows \<Rightarrow>
          (case customers_values i n e u of
             Inl err \<Rightarrow> Inl err
           | Inr row \<Rightarrow>
               if c_id row \<in> set (map c_id rows) then Inr ([], d)
               else if c_email row \<in> set (map c_email rows)
                 then Inl (Error ''duplicate key value violates unique constraint customers_email_key'')
               else Inr ([], on_live (\<lambda>t. t\<lparr>t_customers := Some (rows @ [row])\<rparr>) d)))"
| "pg_run (INSERT_invoices c a s dt) d =
     (case t_invoices (live d) of
        None \<Rightarrow> Inl (Error ''relation invoices does not exist'')
      | Some rows \<Rightarrow>
          (case invoices_values c a s dt of
             Inl err \<Rightarrow> Inl err
           | Inr row \<Rightarrow>
               if uuid_seq d \<in> set (map fst rows) then Inr ([], d\<lparr>uuid_seq := Suc (uuid_seq d)\<rparr>)
               else if i_customer_id row
                      \<in> set (map c_id (case t_customers (live d) of None \<Rightarrow> [] | Some cs \<Rightarrow> cs))
                 then Inr ([], on_live (\<lambda>t. t\<lparr>t_invoices := Some (rows @ [(uuid_seq d, row)])\<rparr>)
                        (d\<lparr>uuid_seq := Suc (uuid_seq d)\<rparr>))
               else Inl (Error ''insert on table invoices violates foreign key constraint'')))"
| "pg_run (INSERT_revenue m r) d =
     (case t_revenue (live d) of
        None \<Rightarrow> Inl (Error ''relation revenue does not exist'')
      | Some rows \<Rightarrow>
          (case revenue_values m r of
             Inl err \<Rightarrow> Inl err
           | Inr row \<Rightarrow>
               if r_month row \<in> set (map r_month rows) then Inr ([], d)
               else Inr ([], on_live (\<lambda>t. t\<lparr>t_revenue := Some (rows @ [row])\<rparr>) d)))"
| "pg_run SELECT_invoices d =
     (case t_invoices (live d) of
        None \<Rightarrow> Inl (Error ''relation invoices does not exist'')
      | Some is \<Rightarrow>
          (case t_customers (live d) of
             None \<Rightarrow> Inl (Error ''relation customers does not exist'')
           | Some cs \<Rightarrow> Inr (join_666 is cs, d)))"

text \<open>A failed statement inside a transaction block puts the block into the failed state.\<close>

definition mark_failed :: "pg \<Rightarrow> pg" where
  "mark_failed d = (if snapshot d = None then d else d\<lparr>aborted := True\<rparr>)"

definition ends_block :: "stmt \<Rightarrow> bool" where
  "ends_block s = (s = COMMIT \<or> s = ROLLBACK)"

text \<open>
  The session. \<open>refuse\<close> stands for every reason to reject a statement that the tables
  and the column types above do not decide (a lost connection, a missing privilege, a
  text that is no date). In a failed block PostgreSQL rejects every statement but
  \<^verbatim>\<open>COMMIT\<close> and \<^verbatim>\<open>ROLLBACK\<close> (``current transaction is aborted, commands ignored until
  end of transaction block'').
\<close>

definition pg_sql :: "(stmt \<Rightarrow> bool) \<Rightarrow> stmt \<Rightarrow> pg \<Rightarrow> (error + query_result) \<times> pg" where
  "pg_sql refuse s d =
     (if refuse s then (Inl (Error ''statement refused''), mark_failed d)
      else if aborted d \<and> \<not> ends_block s
        then (Inl (Error ''current transaction is aborted''), d)
      else (case pg_run s d of
              Inl e \<Rightarrow> (Inl e, mark_failed d)
            | Inr (rows, d1) \<Rightarrow> (Inr rows, d1)))"

text \<open>
  The collaborators over a PostgreSQL session: a pool that hands out the session or not,
  a hash function \<open>hashf\<close> (plaintext and cost to hash, or an error), and the order \<open>ord\<close>
  in which the hashes settle.
\<close>

definition pg_env ::
  "(stmt \<Rightarrow> bool) \<Rightarrow> bool \<Rightarrow> (string \<Rightarrow> nat \<Rightarrow> error + string) \<Rightarrow> nat list \<Rightarrow> pg env" where
  "pg_env refuse pool_ok hashf ord =
     \<lparr>db_connect = (\<lambda>d. (if pool_ok then Inr () else Inl (Error ''connection refused''), d)),
      client_sql = pg_sql refuse,
      client_release = (\<lambda>d. d),
      bcrypt_hash = (\<lambda>p c d. (hashf p c, d)),
      settles = ord\<rparr>"

definition start :: "'x \<Rightarrow> 'x world" where
  "start x = \<lparr>ext = x, calls = [], console = [], pending = []\<rparr>"

text \<open>The statements among the calls, and the number of releases.\<close>

fun sent :: "call list \<Rightarrow> stmt list" where
  "sent [] = []"
| "sent (Sql s r # cs) = s # sent cs"
| "sent (c # cs) = sent cs"

fun releases :: "call list \<Rightarrow> nat" where
  "releases [] = 0"
| "releases (Release # cs) = Suc (releases cs)"
| "releases (c # cs) = releases cs"

section \<open>What a seed invocation is to send\<close>

text \<open>The insert statement of each kind of row, and the line logged when it is rejected.\<close>

definition user_stmt :: "user \<times> string \<Rightarrow> stmt" where
  "user_stmt uh = INSERT_users (u_id (fst uh)) (u_name (fst uh)) (u_email (fst uh)) (snd uh)"

definition user_msg :: "user \<times> string \<Rightarrow> string" where
  "user_msg uh = ''Error inserting user: '' @ u_email (fst uh)"

definition customer_stmt :: "customer \<Rightarrow> stmt" where
  "customer_stmt c = INSERT_customers (c_id c) (c_name c) (c_email c) (c_image_url c)"

definition customer_msg :: "customer \<Rightarrow> string" where
  "customer_msg c = ''Error inserting customer: '' @ c_email c"

definition invoice_stmt :: "invoice \<Rightarrow> stmt" where
  "invoice_stmt i = INSERT_invoices (i_customer_id i) (i_amount i) (i_status i) (i_date i)"

definition invoice_msg :: "invoice \<Rightarrow> string" where
  "invoice_msg i = ''Error inserting invoice for customer: '' @ i_customer_id i"

definition revenue_stmt :: "revenue_entry \<Rightarrow> stmt" where
  "revenue_stmt r = INSERT_revenue (r_month r) (r_revenue r)"

definition revenue_msg :: "revenue_entry \<Rightarrow> string" where
  "revenue_msg r = ''Error inserting revenue for month: '' @ r_month r"

text \<open>
  The rows of one fan-out with the answers \<open>outs\<close> to their inserts: the calls made, the
  results of the callbacks, and the lines logged.
\<close>

definition row_calls :: "('a \<Rightarrow> stmt) \<Rightarrow> 'a list \<Rightarrow> (error + query_result) list \<Rightarrow> call list" where
  "row_calls st xs outs = map (\<lambda>xo. Sql (st (fst xo)) (snd xo)) (zip xs outs)"

definition row_results :: "(error + query_result) list \<Rightarrow> query_result option list" where
  "row_results outs = map (\<lambda>out. case out of Inl e \<Rightarrow> None | Inr q \<Rightarrow> Some q) outs"

definition row_logs ::
  "('a \<Rightarrow> string) \<Rightarrow> 'a list \<Rightarrow> (error + query_result) list \<Rightarrow> (string \<times> error) list" where
  "row_logs msg xs outs =
     concat (map (\<lambda>xo. case snd xo of Inl e \<Rightarrow> [(msg (fst xo), e)] | Inr q \<Rightarrow> []) (zip xs outs))"

text \<open>
  The statements of the steps in the order of the \<^verbatim>\<open>try\<close> block, with the hashes \<open>hs\<close> of
  the users in array order. The inserts of the users step go out in the order in which
  the hashes settle, those of the other steps in array order.
\<close>

definition users_part :: "'x env \<Rightarrow> placeholder_data \<Rightarrow> string list \<Rightarrow> stmt list" where
  "users_part E P hs = CREATE_TABLE_users # map user_stmt (settled E (zip (users P) hs))"

definition customers_part :: "placeholder_data \<Rightarrow> stmt list" where
  "customers_part P = CREATE_TABLE_customers # map customer_stmt (customers P)"

definition invoices_part :: "placeholder_data \<Rightarrow> stmt list" where
  "invoices_part P = CREATE_TABLE_invoices # map invoice_stmt (invoices P)"

definition revenue_part :: "placeholder_data \<Rightarrow> stmt list" where
  "revenue_part P = CREATE_TABLE_revenue # map revenue_stmt (revenue P)"

definition plan :: "'x env \<Rightarrow> placeholder_data \<Rightarrow> string list \<Rightarrow> stmt list" where
  "plan E P hs =
     [BEGIN, CREATE_EXTENSION] @ users_part E P hs @ customers_part P @ invoices_part P
       @ revenue_part P @ [COMMIT]"

text \<open>
  The shape the customers, invoices and revenue steps share: the statement that creates the
  table, awaited outside any \<^verbatim>\<open>try\<close>, then the fan-out over the rows.
\<close>

definition ddl_then_rows ::
  "'x env \<Rightarrow> stmt \<Rightarrow> ('a \<Rightarrow> 'x world \<Rightarrow> query_result option \<times> 'x world) \<Rightarrow> 'a list \<Rightarrow> 'x world
     \<Rightarrow> (error + query_result option list) \<times> 'x world" where
  "ddl_then_rows E ddl cb xs w =
     and_then (sql E ddl w) (\<lambda>_ w1.
       (case fan_out cb xs w1 of (rs, w2) \<Rightarrow> (Inr rs, w2)))"

fun hash_failed :: "call \<Rightarrow> bool" where
  "hash_failed (Hash p c (Inl e)) = True"
| "hash_failed other = False"

text \<open>
  The outcomes of the hashes of a users step that starts in \<open>w\<close>, in array order. Of the
  callbacks in the order in which their hashes settle, each with the outcome of its hash:
  the ones ahead of the first failed hash, with their hashes, and the ones behind it.
\<close>

definition hashes :: "'x env \<Rightarrow> placeholder_data \<Rightarrow> 'x world \<Rightarrow> (error + string) list" where
  "hashes E P w =
     fst (fan_out (\<lambda>u. hash E (u_password u) 10) (users P) (snd (sql E CREATE_TABLE_users w)))"

definition hashed_first :: "(user \<times> (error + string)) list \<Rightarrow> (user \<times> string) list" where
  "hashed_first uhs = map (\<lambda>uh. (fst uh, projr (snd uh))) (takeWhile (\<lambda>uh. \<not> isl (snd uh)) uhs)"

definition left_in_flight ::
  "(user \<times> (error + string)) list \<Rightarrow> (user \<times> (error + string)) list" where
  "left_in_flight uhs = tl (dropWhile (\<lambda>uh. \<not> isl (snd uh)) uhs)"

text \<open>The worlds between the steps of the \<^verbatim>\<open>try\<close> block of the seed handler.\<close>

definition w_begin :: "'x env \<Rightarrow> 'x world \<Rightarrow> 'x world" where
  "w_begin E w = snd (sql E BEGIN w)"

definition w_ext :: "'x env \<Rightarrow> 'x world \<Rightarrow> 'x world" where
  "w_ext E w = snd (createExtensions E (w_begin E w))"

definition w_users :: "'x env \<Rightarrow> placeholder_data \<Rightarrow> 'x world \<Rightarrow> 'x world" where
  "w_users E P w = snd (seedUsers E P (w_ext E w))"

definition w_customers :: "'x env \<Rightarrow> placeholder_data \<Rightarrow> 'x world \<Rightarrow> 'x world" where
  "w_customers E P w = snd (seedCustomers E P (w_users E P w))"

definition w_invoices :: "'x env \<Rightarrow> placeholder_data \<Rightarrow> 'x world \<Rightarrow> 'x world" where
  "w_invoices E P w = snd (seedInvoices E P (w_customers E P w))"

definition w_revenue :: "'x env \<Rightarrow> placeholder_data \<Rightarrow> 'x world \<Rightarrow> 'x world" where
  "w_revenue E P w = snd (seedRevenue E P (w_invoices E P w))"

definition w_commit :: "'x env \<Rightarrow> placeholder_data \<Rightarrow> 'x world \<Rightarrow> 'x world" where
  "w_commit E P w = snd (sql E COMMIT (w_revenue E P w))"

text \<open>The statements that open or end a transaction block.\<close>

definition opens_or_ends_block :: "stmt \<Rightarrow> bool" where
  "opens_or_ends_block s = (s = BEGIN \<or> s = COMMIT \<or> s = ROLLBACK)"

text \<open>
  The rows of the users table, and the rows of the placeholder users with their passwords
  hashed by \<open>hashf\<close> at cost 10 (the key and the name as the columns keep them).
\<close>

definition users_rows :: "tables \<Rightarrow> user list" where
  "users_rows t = (case t_users t of None \<Rightarrow> [] | Some rows \<Rightarrow> rows)"

definition hashed_row :: "(string \<Rightarrow> nat \<Rightarrow> error + string) \<Rightarrow> placeholder_data \<Rightarrow> user \<Rightarrow> bool" where
  "hashed_row hashf P r =
     (\<exists>u \<in> set (users P). uuid_in (u_id u) = Some (u_id r)
        \<and> varchar 255 (u_name u) = Some (u_name r) \<and> u_email r = u_email u
        \<and> hashf (u_password u) 10 = Inr (u_password r))"

definition hashed_insert :: "(string \<Rightarrow> nat \<Rightarrow> error + string) \<Rightarrow> placeholder_data \<Rightarrow> stmt \<Rightarrow> bool" where
  "hashed_insert hashf P s =
     (case s of
        INSERT_users i n e p \<Rightarrow>
          (\<exists>u \<in> set (users P). i = u_id u \<and> n = u_name u \<and> e = u_email u
             \<and> hashf (u_password u) 10 = Inr p)
      | _ \<Rightarrow> True)"

text \<open>
  Every row of the users table is one of the rows \<open>old\<close> or a hashed placeholder row; on a
  session, in the tables it sees and in the tables saved at \<^verbatim>\<open>BEGIN\<close>.
\<close>

definition kept :: "user list \<Rightarrow> (string \<Rightarrow> nat \<Rightarrow> error + string) \<Rightarrow> placeholder_data \<Rightarrow> tables \<Rightarrow> bool" where
  "kept old hashf P t = (\<forall>r \<in> set (users_rows t). r \<in> set old \<or> hashed_row hashf P r)"

definition kept_pg :: "user list \<Rightarrow> (string \<Rightarrow> nat \<Rightarrow> error + string) \<Rightarrow> placeholder_data \<Rightarrow> pg \<Rightarrow> bool" where
  "kept_pg old hashf P d =
     (kept old hashf P (live d) \<and> (case snapshot d of None \<Rightarrow> True | Some t \<Rightarrow> kept old hashf P t))"

section \<open>Example data\<close>

text \<open>
  A small placeholder dataset, a stand-in for the hash (it never fails and never returns
  its input), and the collaborators over a session that refuses nothing, with the hashes
  settling in array order.
\<close>

definition demo_data :: placeholder_data where
  "demo_data =
     \<lparr>users = [\<lparr>u_id = ''410544b2-4001-4271-9855-fec4b6a6442a'', u_name = ''User'',
                 u_email = ''user@nextmail.com'', u_password = ''123456''\<rparr>],
      customers = [\<lparr>c_id = ''d6e15727-9fe1-4961-8c5b-ea44a9bd81aa'', c_name = ''Acme'',
                     c_email = ''acme@example.com'', c_image_url = ''/acme.png''\<rparr>],
      invoices = [\<lparr>i_customer_id = ''d6e15727-9fe1-4961-8c5b-ea44a9bd81aa'', i_amount = 666,
                    i_status = ''paid'', i_date = ''2022-12-06''\<rparr>,
                  \<lparr>i_customer_id = ''d6e15727-9fe1-4961-8c5b-ea44a9bd81aa'', i_amount = 20348,
                    i_status = ''pending'', i_date = ''2022-11-14''\<rparr>],
      revenue = [\<lparr>r_month = ''Jan'', r_revenue = 2000\<rparr>]\<rparr>"

definition demo_hash :: "string \<Rightarrow> nat \<Rightarrow> error + string" where
  "demo_hash p c = Inr (''$2b$'' @ digits c @ ''$'' @ p)"

definition demo_env :: "pg env" where
  "demo_env = pg_env (\<lambda>s. False) True demo_hash []"

text \<open>A database with two customers and two invoices, one of them of amount 666.\<close>

definition acme_db :: pg where
  "acme_db =
     \<lparr>live = \<lparr>uuid_ossp = True, t_users = Some [],
        t_customers = Some [\<lparr>c_id = ''d6e15727-9fe1-4961-8c5b-ea44a9bd81aa'', c_name = ''Acme'',
                              c_email = ''acme@example.com'', c_image_url = ''/acme.png''\<rparr>,
                            \<lparr>c_id = ''3958dc9e-712f-4377-85e9-fec4b6a6442a'', c_name = ''Other'',
                              c_email = ''other@example.com'', c_image_url = ''/other.png''\<rparr>],
        t_invoices = Some [(0, \<lparr>i_customer_id = ''d6e15727-9fe1-4961-8c5b-ea44a9bd81aa'',
                                i_amount = 666, i_status = ''paid'', i_date = ''2022-12-06''\<rparr>),
                           (1, \<lparr>i_customer_id = ''3958dc9e-712f-4377-85e9-fec4b6a6442a'',
                                i_amount = 20348, i_status = ''pending'', i_date = ''2022-11-14''\<rparr>)],
        t_revenue = Some []\<rparr>,
      snapshot = None, aborted = False, uuid_seq = 2\<rparr>"


text \<open>A hash that rejects every input, and a session that refuses \<^verbatim>\<open>ROLLBACK\<close>.\<close>

definition failing_hash :: "string \<Rightarrow> nat \<Rightarrow> error + string" where
  "failing_hash p c = Inl (Error ''data and salt arguments required'')"

definition refuse_rollback :: "stmt \<Rightarrow> bool" where
  "refuse_rollback s = (s = ROLLBACK)"

text \<open>Sessions that refuse to create the invoices table, and \<^verbatim>\<open>ROLLBACK\<close> as well.\<close>

definition refuse_invoices_table :: "stmt \<Rightarrow> bool" where
  "refuse_invoices_table s = (s = CREATE_TABLE_invoices)"

definition refuse_invoices_table_and_rollback :: "stmt \<Rightarrow> bool" where
  "refuse_invoices_table_and_rollback s = (s = CREATE_TABLE_invoices \<or> s = ROLLBACK)"

text \<open>The world after one seed invocation on an empty database, and after a second one.\<close>

definition seeded_once :: "pg world" where
  "seeded_once = snd (GET_seed demo_env demo_data (start fresh_pg))"

definition seeded_twice :: "pg world" where
  "seeded_twice = snd (GET_seed demo_env demo_data (start (ext seeded_once)))"

text \<open>
  A hash that rejects the empty password, and the example dataset with two users, the
  first of them with an empty password.
\<close>

definition picky_hash :: "string \<Rightarrow> nat \<Rightarrow> error + string" where
  "picky_hash p c =
     (if p = [] then Inl (Error ''data and salt arguments required'') else demo_hash p c)"

definition two_users :: placeholder_data where
  "two_users =
     demo_data\<lparr>users :=
       [\<lparr>u_id = ''13d07535-c59e-4157-a011-f8d2ef4e0cbb'', u_name = ''Nobody'',
          u_email = ''nobody@nextmail.com'', u_password = []\<rparr>,
        \<lparr>u_id = ''410544b2-4001-4271-9855-fec4b6a6442a'', u_name = ''User'',
          u_email = ''user@nextmail.com'', u_password = ''123456''\<rparr>]\<rparr>"

text \<open>The example dataset with a second user that has the email of the first.\<close>

definition same_email :: placeholder_data where
  "same_email =
     demo_data\<lparr>users :=
       [\<lparr>u_id = ''410544b2-4001-4271-9855-fec4b6a6442a'', u_name = ''User'',
          u_email = ''user@nextmail.com'', u_password = ''123456''\<rparr>,
        \<lparr>u_id = ''13d07535-c59e-4157-a011-f8d2ef4e0cbb'', u_name = ''Twin'',
          u_email = ''user@nextmail.com'', u_password = ''abcdef''\<rparr>]\<rparr>"

text \<open>
  A database in which the users table holds the row of the example user with the
  password as it is in the placeholder data.
\<close>

definition plain_db :: pg where
  "plain_db =
     fresh_pg\<lparr>live := empty_tables\<lparr>uuid_ossp := True,
       t_users := Some [\<lparr>u_id = ''410544b2-4001-4271-9855-fec4b6a6442a'', u_name = ''User'',
                         u_email = ''user@nextmail.com'', u_password = ''123456''\<rparr>]\<rparr>\<rparr>"

text \<open>
  A pool that counts the clients it has handed out and not got back; its clients answer
  every statement with no rows.
\<close>

definition counting_pool :: "nat env" where
  "counting_pool =
     \<lparr>db_connect = (\<lambda>n. (Inr (), Suc n)),
      client_sql = (\<lambda>s n. (Inr [], n)),
      client_release = (\<lambda>n. n - 1),
      bcrypt_hash = (\<lambda>p c n. (demo_hash p c, n)),
      settles = []\<rparr>"

text \<open>The collaborators of the example with the hash of the second user settling first.\<close>

definition late_first :: "pg env" where
  "late_first = pg_env (\<lambda>s. False) True demo_hash [1, 0]"


section \<open>Facts about the calls\<close>

lemma sql_fst: "fst (sql E s w) = fst (client_sql E s (ext w))"
  by (simp add: sql_def split: prod.split)

lemma sql_snd:
  "snd (sql E s w) =
     w\<lparr>ext := snd (client_sql E s (ext w)),
       calls := calls w @ [Sql s (fst (client_sql E s (ext w)))]\<rparr>"
  by (simp add: sql_def split: prod.split)

lemma connect_fst: "fst (connect E w) = fst (db_connect E (ext w))"
  by (simp add: connect_def split: prod.split)

lemma connect_snd:
  "snd (connect E w) =
     w\<lparr>ext := snd (db_connect E (ext w)),
       calls := calls w @ [Connect (fst (db_connect E (ext w)))]\<rparr>"
  by (simp add: connect_def split: prod.split)

lemma and_then_Inl: "fst m = Inl e \<Longrightarrow> and_then m f = (Inl e, snd m)"
  by (cases m) (simp add: and_then_def)

lemma and_then_Inr: "fst m = Inr a \<Longrightarrow> and_then m f = f a (snd m)"
  by (cases m) (simp add: and_then_def)

lemma listInvoices_no_connection:
  "fst (db_connect E (ext w)) = Inl e \<Longrightarrow> listInvoices E w = (Inl e, snd (connect E w))"
  by (simp add: listInvoices_def and_then_Inl connect_fst)

lemma listInvoices_connected:
  "fst (db_connect E (ext w)) = Inr u \<Longrightarrow>
   listInvoices E w =
     (case sql E SELECT_invoices (snd (connect E w)) of
        (Inr rows, w2) \<Rightarrow> (Inr rows, release E w2)
      | (Inl e, w2) \<Rightarrow> (Inl e, release E (console_error ''Error querying the database:'' e w2)))"
  by (simp add: listInvoices_def and_then_Inr connect_fst)

lemma listInvoices_query_failed:
  assumes "fst (client_sql E SELECT_invoices (snd (db_connect E (ext w)))) = Inl e"
  shows "\<exists>e'. fst (listInvoices E w) = Inl e'"
proof (cases "fst (db_connect E (ext w))")
  case (Inl a)
  then show ?thesis by (simp add: listInvoices_no_connection)
next
  case (Inr u)
  have "fst (sql E SELECT_invoices (snd (connect E w))) = Inl e"
    using assms by (simp add: sql_fst connect_snd)
  then show ?thesis
    by (cases "sql E SELECT_invoices (snd (connect E w))") (simp add: listInvoices_connected [OF Inr])
qed

lemma failed_to_fetch_text: "failed_to_fetch = ''{\"error\":\"Failed to fetch invoices\"}''"
  by (simp add: failed_to_fetch_def quote_char_def)

lemma Response_new_plain:
  "Response_new b st [] =
     \<lparr>status = (case st of None \<Rightarrow> 200 | Some n \<Rightarrow> n),
      headers = [(''content-type'', ''text/plain;charset=UTF-8'')], body = b\<rparr>"
  by (simp add: Response_new_def)

lemma lower_Content_Type: "map ascii_lower ''Content-Type'' = ''content-type''"
  by code_simp

lemma Response_new_json:
  "Response_new b st [(''Content-Type'', ''application/json'')] =
     \<lparr>status = (case st of None \<Rightarrow> 200 | Some n \<Rightarrow> n),
      headers = [(''content-type'', ''application/json'')], body = b\<rparr>"
proof -
  have "map (\<lambda>h. map ascii_lower (fst h)) [(''Content-Type'', ''application/json'')]
          = [''content-type'']"
    using lower_Content_Type by simp
  moreover have "map (\<lambda>h. (map ascii_lower (fst h), snd h)) [(''Content-Type'', ''application/json'')]
          = [(''content-type'', ''application/json'')]"
    using lower_Content_Type by simp
  ultimately show ?thesis
    unfolding Response_new_def by simp
qed

text \<open>
  C5. Whenever acquiring the connection fails, or the query does, the query handler (either
  version of it) answers with status 500 and the body \<^verbatim>\<open>{"error":"Failed to fetch invoices"}\<close>.
  The response is the same whatever the error was: nothing of the error is in it.
\<close>

theorem query_failure_response:
  assumes "fst (db_connect E (ext w)) = Inl e
     \<or> fst (client_sql E SELECT_invoices (snd (db_connect E (ext w)))) = Inl e"
  shows "fst (GET_query E w) =
           \<lparr>status = 500, headers = [(''content-type'', ''text/plain;charset=UTF-8'')],
            body = ''{\"error\":\"Failed to fetch invoices\"}''\<rparr>
       \<and> fst (GET_query_2 E w) =
           \<lparr>status = 500, headers = [(''content-type'', ''application/json'')],
            body = ''{\"error\":\"Failed to fetch invoices\"}''\<rparr>"
proof -
  from assms obtain e' where "fst (listInvoices E w) = Inl e'"
    using listInvoices_query_failed [of E w e] by (auto simp: listInvoices_no_connection)
  then obtain w1 where "listInvoices E w = (Inl e', w1)"
    by (cases "listInvoices E w") simp
  then show ?thesis
    by (simp add: GET_query_def GET_query_2_def Response_new_plain Response_new_json
        failed_to_fetch_text)
qed

theorem query_failure_response_witness:
  "fst (db_connect (pg_env (\<lambda>s. False) False demo_hash []) (ext (start fresh_pg)))
     = Inl (Error ''connection refused'')
   \<and> fst (GET_query (pg_env (\<lambda>s. False) False demo_hash []) (start fresh_pg)) =
           \<lparr>status = 500, headers = [(''content-type'', ''text/plain;charset=UTF-8'')],
            body = ''{\"error\":\"Failed to fetch invoices\"}''\<rparr>
   \<and> fst (GET_query_2 (pg_env (\<lambda>s. False) False demo_hash []) (start fresh_pg)) =
           \<lparr>status = 500, headers = [(''content-type'', ''application/json'')],
            body = ''{\"error\":\"Failed to fetch invoices\"}''\<rparr>
   \<and> fst (client_sql demo_env SELECT_invoices (snd (db_connect demo_env (ext (start fresh_pg)))))
     = Inl (Error ''relation invoices does not exist'')
   \<and> fst (GET_query demo_env (start fresh_pg)) =
           \<lparr>status = 500, headers = [(''content-type'', ''text/plain;charset=UTF-8'')],
            body = ''{\"error\":\"Failed to fetch invoices\"}''\<rparr>
   \<and> fst (GET_query_2 demo_env (start fresh_pg)) =
           \<lparr>status = 500, headers = [(''content-type'', ''application/json'')],
            body = ''{\"error\":\"Failed to fetch invoices\"}''\<rparr>"
proof -
  have h: "fst (db_connect (pg_env (\<lambda>s. False) False demo_hash []) (ext (start fresh_pg)))
     = Inl (Error ''connection refused'')"
    by (simp add: pg_env_def)
  have q: "fst (client_sql demo_env SELECT_invoices
                 (snd (db_connect demo_env (ext (start fresh_pg)))))
     = Inl (Error ''relation invoices does not exist'')"
    by code_simp
  show ?thesis
    using h q query_failure_response [OF disjI1 [OF h]] query_failure_response [OF disjI2 [OF q]]
    by simp
qed

lemma releases_append: "releases (xs @ ys) = releases xs + releases ys"
  by (induction xs rule: releases.induct) simp_all

lemma sent_append: "sent (xs @ ys) = sent xs @ sent ys"
  by (induction xs rule: sent.induct) simp_all

lemma release_calls: "calls (release E w) = calls w @ [Release]"
  by (simp add: release_def)

lemma GET_query_world: "snd (GET_query E w) = snd (listInvoices E w)"
  by (cases "listInvoices E w") (simp add: GET_query_def split: sum.split)

lemma GET_query_2_world: "snd (GET_query_2 E w) = snd (listInvoices E w)"
  by (cases "listInvoices E w") (simp add: GET_query_2_def split: sum.split)

lemma listInvoices_connected_calls:
  assumes "fst (db_connect E (ext w)) = Inr u"
  shows "calls (snd (listInvoices E w)) =
     calls w @ [Connect (Inr u),
       Sql SELECT_invoices (fst (client_sql E SELECT_invoices (snd (db_connect E (ext w))))),
       Release]"
proof (cases "sql E SELECT_invoices (snd (connect E w))")
  case (Pair r w2)
  then have "w2 = snd (sql E SELECT_invoices (snd (connect E w)))" by simp
  then have "calls w2 = calls w @ [Connect (Inr u),
       Sql SELECT_invoices (fst (client_sql E SELECT_invoices (snd (db_connect E (ext w)))))]"
    using assms by (simp add: sql_snd connect_snd)
  then show ?thesis
    using Pair by (cases r) (simp_all add: listInvoices_connected [OF assms] release_calls console_error_def)
qed

lemma listInvoices_connected_ext:
  assumes "fst (db_connect E (ext w)) = Inr u"
  shows "ext (snd (listInvoices E w)) =
     client_release E (snd (client_sql E SELECT_invoices (snd (db_connect E (ext w)))))"
proof (cases "sql E SELECT_invoices (snd (connect E w))")
  case (Pair r w2)
  then have "w2 = snd (sql E SELECT_invoices (snd (connect E w)))" by simp
  then have "ext w2 = snd (client_sql E SELECT_invoices (snd (db_connect E (ext w))))"
    by (simp add: sql_snd connect_snd)
  then show ?thesis
    using Pair
    by (cases r) (simp_all add: listInvoices_connected [OF assms] release_def console_error_def)
qed

text \<open>
  C6. In \<^verbatim>\<open>listInvoices\<close>, when the connection is acquired, the calls made are the connect, the
  query and one release, in this order, whether the query succeeds or fails: the number of
  releases grows by exactly one, and the state of the pool afterwards is the one that
  \<^verbatim>\<open>client.release()\<close> makes of the state after the query. When acquiring the connection
  fails, no other call is made (no release on the missing client), the state is the one
  the failed connect left, and both handlers answer with status 500 and the fixed body.
  The handlers make no call of their own beyond those of \<^verbatim>\<open>listInvoices\<close>.
\<close>

theorem connection_released_once:
  "(fst (db_connect E (ext w)) = Inr () \<longrightarrow>
      (\<exists>r. calls (snd (listInvoices E w)) =
             calls w @ [Connect (Inr ()), Sql SELECT_invoices r, Release])
      \<and> releases (calls (snd (listInvoices E w))) = Suc (releases (calls w))
      \<and> ext (snd (listInvoices E w)) =
          client_release E (snd (client_sql E SELECT_invoices (snd (db_connect E (ext w))))))
   \<and> (fst (db_connect E (ext w)) = Inl e \<longrightarrow>
      calls (snd (listInvoices E w)) = calls w @ [Connect (Inl e)]
      \<and> releases (calls (snd (listInvoices E w))) = releases (calls w)
      \<and> ext (snd (listInvoices E w)) = snd (db_connect E (ext w))
      \<and> status (fst (GET_query E w)) = 500
      \<and> body (fst (GET_query E w)) = ''{\"error\":\"Failed to fetch invoices\"}''
      \<and> status (fst (GET_query_2 E w)) = 500
      \<and> body (fst (GET_query_2 E w)) = ''{\"error\":\"Failed to fetch invoices\"}'')
   \<and> snd (GET_query E w) = snd (listInvoices E w)
   \<and> snd (GET_query_2 E w) = snd (listInvoices E w)"
proof (intro conjI impI)
  assume ok: "fst (db_connect E (ext w)) = Inr ()"
  show "\<exists>r. calls (snd (listInvoices E w)) =
             calls w @ [Connect (Inr ()), Sql SELECT_invoices r, Release]"
    using listInvoices_connected_calls [OF ok] by blast
  show "releases (calls (snd (listInvoices E w))) = Suc (releases (calls w))"
    by (simp add: listInvoices_connected_calls [OF ok] releases_append)
  show "ext (snd (listInvoices E w)) =
          client_release E (snd (client_sql E SELECT_invoices (snd (db_connect E (ext w)))))"
    by (rule listInvoices_connected_ext [OF ok])
next
  assume no: "fst (db_connect E (ext w)) = Inl e"
  show "calls (snd (listInvoices E w)) = calls w @ [Connect (Inl e)]"
    by (simp add: listInvoices_no_connection [OF no] connect_snd no)
  then show "releases (calls (snd (listInvoices E w))) = releases (calls w)"
    by (simp add: releases_append)
  show "ext (snd (listInvoices E w)) = snd (db_connect E (ext w))"
    by (simp add: listInvoices_no_connection [OF no] connect_snd)
  have r: "fst (GET_query E w) =
           \<lparr>status = 500, headers = [(''content-type'', ''text/plain;charset=UTF-8'')],
            body = ''{\"error\":\"Failed to fetch invoices\"}''\<rparr>"
     "fst (GET_query_2 E w) =
           \<lparr>status = 500, headers = [(''content-type'', ''application/json'')],
            body = ''{\"error\":\"Failed to fetch invoices\"}''\<rparr>"
    using no by (simp_all add: GET_query_def GET_query_2_def Response_new_plain Response_new_json
        failed_to_fetch_text listInvoices_no_connection)
  show "status (fst (GET_query E w)) = 500"
    and "body (fst (GET_query E w)) = ''{\"error\":\"Failed to fetch invoices\"}''"
    and "status (fst (GET_query_2 E w)) = 500"
    and "body (fst (GET_query_2 E w)) = ''{\"error\":\"Failed to fetch invoices\"}''"
    by (simp_all add: r)
qed (rule GET_query_world GET_query_2_world)+

text \<open>
  On the pool that counts its clients, one invocation takes a client and gives it back; on
  a session whose pool refuses, nothing is released.
\<close>

theorem connection_released_once_witness:
  "fst (db_connect counting_pool (ext (start 0))) = Inr ()
   \<and> snd (db_connect counting_pool (ext (start 0))) = 1
   \<and> ext (snd (listInvoices counting_pool (start 0))) = 0
   \<and> releases (calls (snd (listInvoices counting_pool (start 0)))) = 1
   \<and> fst (db_connect (pg_env (\<lambda>s. False) False demo_hash []) (ext (start fresh_pg)))
        = Inl (Error ''connection refused'')
   \<and> calls (snd (listInvoices (pg_env (\<lambda>s. False) False demo_hash []) (start fresh_pg)))
        = [Connect (Inl (Error ''connection refused''))]
   \<and> releases (calls (snd (listInvoices (pg_env (\<lambda>s. False) False demo_hash []) (start fresh_pg)))) = 0
   \<and> status (fst (GET_query (pg_env (\<lambda>s. False) False demo_hash []) (start fresh_pg))) = 500"
proof -
  have ok: "fst (db_connect counting_pool (ext (start 0))) = Inr ()"
    by (simp add: counting_pool_def)
  have x: "snd (db_connect counting_pool (ext (start 0))) = Suc 0"
    "client_release counting_pool (snd (client_sql counting_pool SELECT_invoices (Suc 0))) = 0"
    by (simp_all add: counting_pool_def start_def)
  have no: "fst (db_connect (pg_env (\<lambda>s. False) False demo_hash []) (ext (start fresh_pg)))
        = Inl (Error ''connection refused'')"
    by (simp add: pg_env_def)
  have c: "calls (start fresh_pg) = []" "calls (start (0::nat)) = []"
    by (simp_all add: start_def)
  show ?thesis
    using ok no
      connection_released_once [of counting_pool "start 0"]
      connection_released_once [of "pg_env (\<lambda>s. False) False demo_hash []" "start fresh_pg"
        "Error ''connection refused''"]
    by (simp add: c x)
qed

text \<open>
  A successful invocation: both handlers answer with status 200 and the JSON text of the
  rows, \<^verbatim>\<open>[]\<close> when there are none.
\<close>

lemma query_success_response:
  assumes "fst (listInvoices E w) = Inr rows"
  shows "fst (GET_query E w) =
           \<lparr>status = 200, headers = [(''content-type'', ''text/plain;charset=UTF-8'')],
            body = JSON_stringify (rows_json rows)\<rparr>
       \<and> fst (GET_query_2 E w) =
           \<lparr>status = 200, headers = [(''content-type'', ''application/json'')],
            body = JSON_stringify (rows_json rows)\<rparr>"
proof -
  obtain w1 where "listInvoices E w = (Inr rows, w1)"
    using assms by (cases "listInvoices E w") simp
  then show ?thesis
    by (simp add: GET_query_def GET_query_2_def Response_new_plain Response_new_json)
qed

lemma no_rows_json: "JSON_stringify (rows_json []) = ''[]''"
  by (simp add: rows_json_def)

text \<open>
  C9 fails for the handler of lines 26 to 41 in its last part: that handler gives its
  responses no headers, so the content type they declare is that of a string body,
  \<^verbatim>\<open>text/plain;charset=UTF-8\<close>, on every invocation. The handler of lines 68 to 85 declares
  \<^verbatim>\<open>application/json\<close>.
\<close>

theorem query_content_type_plain:
  "content_type (fst (GET_query E w)) = Some ''text/plain;charset=UTF-8''"
  by (cases "listInvoices E w")
     (simp add: GET_query_def content_type_def Response_new_plain split: sum.split)

lemma query_2_content_type_json:
  "content_type (fst (GET_query_2 E w)) = Some ''application/json''"
  by (cases "listInvoices E w")
     (simp add: GET_query_2_def content_type_def Response_new_json split: sum.split)

section \<open>The query on a PostgreSQL session\<close>

lemma listInvoices_pg_Inr:
  assumes "fst (listInvoices (pg_env refuse ok hashf ord) w) = Inr rows"
  shows "ok \<and> \<not> refuse SELECT_invoices \<and> \<not> aborted (ext w)
     \<and> pg_run SELECT_invoices (ext w) = Inr (rows, ext w)"
proof -
  let ?E = "pg_env refuse ok hashf ord"
  have ok: ok
  proof (rule ccontr)
    assume "\<not> ok"
    then have "fst (db_connect ?E (ext w)) = Inl (Error ''connection refused'')"
      by (simp add: pg_env_def)
    from listInvoices_no_connection [OF this] assms show False by simp
  qed
  then have c: "fst (db_connect ?E (ext w)) = Inr ()" and x: "snd (db_connect ?E (ext w)) = ext w"
    by (simp_all add: pg_env_def)
  have q: "fst (client_sql ?E SELECT_invoices (ext w)) = Inr rows"
  proof (cases "sql ?E SELECT_invoices (snd (connect ?E w))")
    case (Pair r w2)
    with assms have "r = Inr rows"
      by (cases r) (simp_all add: listInvoices_connected [OF c])
    with Pair have "fst (sql ?E SELECT_invoices (snd (connect ?E w))) = Inr rows" by simp
    then show ?thesis by (simp add: sql_fst connect_snd x)
  qed
  then have p: "fst (pg_sql refuse SELECT_invoices (ext w)) = Inr rows"
    by (simp add: pg_env_def)
  then have "\<not> refuse SELECT_invoices" and "\<not> aborted (ext w)"
    by (auto simp: pg_sql_def ends_block_def split: if_splits)
  moreover from p this have "pg_run SELECT_invoices (ext w) = Inr (rows, ext w)"
    by (auto simp: pg_sql_def ends_block_def split: if_splits sum.splits option.splits)
  ultimately show ?thesis using ok by simp
qed

text \<open>
  C4. Whenever \<^verbatim>\<open>listInvoices\<close> succeeds on a PostgreSQL session, its rows are exactly the pairs
  of an invoice and a customer with the invoice's customer reference equal to the customer's
  key and the invoice's amount equal to 666, each as the record of the invoice's amount and
  the customer's name; both handlers answer with status 200 and the JSON text of these rows.
  For the example database, with one invoice of amount 666 of the customer Acme, the body is
  \<^verbatim>\<open>[{"amount":666,"name":"Acme"}]\<close>.
\<close>

theorem query_returns_join:
  assumes "fst (listInvoices (pg_env refuse ok hashf ord) w) = Inr rows"
  shows "\<exists>is cs. t_invoices (live (ext w)) = Some is \<and> t_customers (live (ext w)) = Some cs
     \<and> rows = [\<lparr>amount = i_amount (snd i), name = c_name c\<rparr>.
                 i \<leftarrow> is, c \<leftarrow> cs, i_customer_id (snd i) = c_id c \<and> i_amount (snd i) = 666]
     \<and> fst (GET_query (pg_env refuse ok hashf ord) w) =
          \<lparr>status = 200, headers = [(''content-type'', ''text/plain;charset=UTF-8'')],
           body = JSON_stringify (JArray (map (\<lambda>r.
                    JObject [(''amount'', JNumber (amount r)), (''name'', JString (name r))]) rows))\<rparr>
     \<and> fst (GET_query_2 (pg_env refuse ok hashf ord) w) =
          \<lparr>status = 200, headers = [(''content-type'', ''application/json'')],
           body = JSON_stringify (JArray (map (\<lambda>r.
                    JObject [(''amount'', JNumber (amount r)), (''name'', JString (name r))]) rows))\<rparr>"
proof -
  from listInvoices_pg_Inr [OF assms]
  have run: "pg_run SELECT_invoices (ext w) = Inr (rows, ext w)" by simp
  then obtain "is" cs where t: "t_invoices (live (ext w)) = Some is"
      "t_customers (live (ext w)) = Some cs" and r: "rows = join_666 is cs"
    by (auto split: option.splits)
  obtain w1 where l: "listInvoices (pg_env refuse ok hashf ord) w = (Inr rows, w1)"
    using assms by (cases "listInvoices (pg_env refuse ok hashf ord) w") simp
  have "fst (GET_query (pg_env refuse ok hashf ord) w) =
          \<lparr>status = 200, headers = [(''content-type'', ''text/plain;charset=UTF-8'')],
           body = JSON_stringify (JArray (map (\<lambda>r.
                    JObject [(''amount'', JNumber (amount r)), (''name'', JString (name r))]) rows))\<rparr>"
    unfolding GET_query_def l rows_json_def row_json_def Response_new_plain by simp
  moreover have "fst (GET_query_2 (pg_env refuse ok hashf ord) w) =
          \<lparr>status = 200, headers = [(''content-type'', ''application/json'')],
           body = JSON_stringify (JArray (map (\<lambda>r.
                    JObject [(''amount'', JNumber (amount r)), (''name'', JString (name r))]) rows))\<rparr>"
    unfolding GET_query_2_def l rows_json_def row_json_def Response_new_json by simp
  moreover have "rows = [\<lparr>amount = i_amount (snd i), name = c_name c\<rparr>.
                 i \<leftarrow> is, c \<leftarrow> cs, i_customer_id (snd i) = c_id c \<and> i_amount (snd i) = 666]"
    unfolding r join_666_def by simp
  ultimately show ?thesis using t by blast
qed

lemma acme_list:
  "fst (listInvoices (pg_env (\<lambda>s. False) True demo_hash []) (start acme_db))
     = Inr [\<lparr>amount = 666, name = ''Acme''\<rparr>]"
  by code_simp

theorem query_returns_join_witness:
  "fst (listInvoices (pg_env (\<lambda>s. False) True demo_hash []) (start acme_db))
     = Inr [\<lparr>amount = 666, name = ''Acme''\<rparr>]
   \<and> fst (GET_query (pg_env (\<lambda>s. False) True demo_hash []) (start acme_db)) =
          \<lparr>status = 200, headers = [(''content-type'', ''text/plain;charset=UTF-8'')],
           body = ''[{\"amount\":666,\"name\":\"Acme\"}]''\<rparr>
   \<and> fst (GET_query_2 (pg_env (\<lambda>s. False) True demo_hash []) (start acme_db)) =
          \<lparr>status = 200, headers = [(''content-type'', ''application/json'')],
           body = ''[{\"amount\":666,\"name\":\"Acme\"}]''\<rparr>"
proof -
  have b: "JSON_stringify (JArray (map (\<lambda>r.
       JObject [(''amount'', JNumber (amount r)), (''name'', JString (name r))])
         [\<lparr>amount = 666, name = ''Acme''\<rparr>])) = ''[{\"amount\":666,\"name\":\"Acme\"}]''"
    by code_simp
  show ?thesis
    using acme_list query_returns_join [OF acme_list] by (simp only: b) blast
qed

section \<open>The fan-out over the rows\<close>

lemma hash_fst: "fst (hash E p c w) = fst (bcrypt_hash E p c (ext w))"
  by (simp add: hash_def split: prod.split)

lemma hash_snd:
  "snd (hash E p c w) =
     w\<lparr>ext := snd (bcrypt_hash E p c (ext w)),
       calls := calls w @ [Hash p c (fst (bcrypt_hash E p c (ext w)))]\<rparr>"
  by (simp add: hash_def split: prod.split)

lemma and_then_eq:
  "and_then m f = (case fst m of Inl e \<Rightarrow> (Inl e, snd m) | Inr a \<Rightarrow> f a (snd m))"
  by (cases m) (simp add: and_then_def split: sum.split)

lemma try_insert_fst:
  "fst (try_insert E s msg w) =
     (case fst (client_sql E s (ext w)) of Inl e \<Rightarrow> None | Inr q \<Rightarrow> Some q)"
  by (cases "sql E s w") (auto simp: try_insert_def sql_fst [symmetric] split: sum.split)

lemma try_insert_snd:
  "snd (try_insert E s msg w) =
     w\<lparr>ext := snd (client_sql E s (ext w)),
       calls := calls w @ [Sql s (fst (client_sql E s (ext w)))],
       console := console w @ (case fst (client_sql E s (ext w)) of
                    Inl e \<Rightarrow> [(msg, e)] | Inr q \<Rightarrow> [])\<rparr>"
proof -
  have "sql E s w = (fst (client_sql E s (ext w)), snd (sql E s w))"
    by (simp add: sql_fst [symmetric])
  then show ?thesis
    unfolding try_insert_def by (simp add: sql_snd console_error_def split: sum.split)
qed

lemma fan_out_Cons:
  "fan_out f (x # xs) s =
     (fst (f x s) # fst (fan_out f xs (snd (f x s))), snd (fan_out f xs (snd (f x s))))"
  by (simp add: case_prod_beta)

text \<open>The callbacks of the four fan-outs are instances of one shape.\<close>

lemma insert_customer_shape:
  "insert_customer E = (\<lambda>c. try_insert E (customer_stmt c) (customer_msg c))"
  by (rule ext) (simp add: insert_customer_def customer_stmt_def customer_msg_def)

lemma insert_invoice_shape:
  "insert_invoice E = (\<lambda>i. try_insert E (invoice_stmt i) (invoice_msg i))"
  by (rule ext) (simp add: insert_invoice_def invoice_stmt_def invoice_msg_def)

lemma insert_revenue_shape:
  "insert_revenue E = (\<lambda>r. try_insert E (revenue_stmt r) (revenue_msg r))"
  by (rule ext) (simp add: insert_revenue_def revenue_stmt_def revenue_msg_def)

lemma insert_user_shape:
  "insert_user E u h = try_insert E (user_stmt (u, h)) (user_msg (u, h))"
  by (simp add: insert_user_def user_stmt_def user_msg_def)

lemma fan_out_rows:
  "\<exists>outs. length outs = length xs
     \<and> fst (fan_out (\<lambda>x. try_insert E (st x) (msg x)) xs w) = row_results outs
     \<and> calls (snd (fan_out (\<lambda>x. try_insert E (st x) (msg x)) xs w)) = calls w @ row_calls st xs outs
     \<and> console (snd (fan_out (\<lambda>x. try_insert E (st x) (msg x)) xs w))
         = console w @ row_logs msg xs outs
     \<and> pending (snd (fan_out (\<lambda>x. try_insert E (st x) (msg x)) xs w)) = pending w"
proof (induction xs arbitrary: w)
  case Nil
  show ?case by (simp add: row_results_def row_calls_def row_logs_def)
next
  case (Cons x xs)
  let ?f = "\<lambda>x. try_insert E (st x) (msg x)"
  let ?out = "fst (client_sql E (st x) (ext w))"
  let ?w1 = "snd (?f x w)"
  from Cons.IH [of ?w1] obtain outs where o: "length outs = length xs"
    "fst (fan_out ?f xs ?w1) = row_results outs"
    "calls (snd (fan_out ?f xs ?w1)) = calls ?w1 @ row_calls st xs outs"
    "console (snd (fan_out ?f xs ?w1)) = console ?w1 @ row_logs msg xs outs"
    "pending (snd (fan_out ?f xs ?w1)) = pending ?w1"
    by blast
  have step: "fan_out ?f (x # xs) w =
      (fst (?f x w) # fst (fan_out ?f xs ?w1), snd (fan_out ?f xs ?w1))"
    by (rule fan_out_Cons)
  have "length (?out # outs) = length (x # xs)" using o by simp
  moreover have "fst (fan_out ?f (x # xs) w) = row_results (?out # outs)"
    unfolding step using o by (simp add: row_results_def try_insert_fst)
  moreover have "calls (snd (fan_out ?f (x # xs) w)) = calls w @ row_calls st (x # xs) (?out # outs)"
    unfolding step using o by (simp add: row_calls_def try_insert_snd)
  moreover have "console (snd (fan_out ?f (x # xs) w))
         = console w @ row_logs msg (x # xs) (?out # outs)"
    unfolding step using o by (simp add: row_logs_def try_insert_snd split: sum.split)
  moreover have "pending (snd (fan_out ?f (x # xs) w)) = pending w"
    unfolding step using o by (simp add: try_insert_snd)
  ultimately show ?case by blast
qed

lemma sent_row_calls: "length outs = length xs \<Longrightarrow> sent (row_calls st xs outs) = map st xs"
  by (induction xs arbitrary: outs) (auto simp: row_calls_def length_Suc_conv)

lemma fan_out_inv:
  assumes "\<And>x s. x \<in> set xs \<Longrightarrow> I s \<Longrightarrow> I (snd (f x s))" and "I s"
  shows "I (snd (fan_out f xs s))"
  using assms
proof (induction xs arbitrary: s)
  case Nil
  then show ?case by simp
next
  case (Cons x xs)
  have "I (snd (f x s))" using Cons.prems by simp
  then have "I (snd (fan_out f xs (snd (f x s))))"
    using Cons.IH Cons.prems(1) by simp
  then show ?case by (simp only: fan_out_Cons snd_conv)
qed

lemma seedCustomers_shape:
  "seedCustomers E P =
     ddl_then_rows E CREATE_TABLE_customers
       (\<lambda>c. try_insert E (customer_stmt c) (customer_msg c)) (customers P)"
  by (rule ext) (simp add: seedCustomers_def ddl_then_rows_def insert_customer_shape)

lemma seedInvoices_shape:
  "seedInvoices E P =
     ddl_then_rows E CREATE_TABLE_invoices
       (\<lambda>i. try_insert E (invoice_stmt i) (invoice_msg i)) (invoices P)"
  by (rule ext) (simp add: seedInvoices_def ddl_then_rows_def insert_invoice_shape)

lemma seedRevenue_shape:
  "seedRevenue E P =
     ddl_then_rows E CREATE_TABLE_revenue
       (\<lambda>r. try_insert E (revenue_stmt r) (revenue_msg r)) (revenue P)"
  by (rule ext) (simp add: seedRevenue_def ddl_then_rows_def insert_revenue_shape)

lemma ddl_rejected:
  assumes "fst (client_sql E ddl (ext w)) = Inl e"
  shows "ddl_then_rows E ddl cb xs w = (Inl e, snd (sql E ddl w))"
  using assms by (simp add: ddl_then_rows_def and_then_eq sql_fst)

lemma ddl_accepted:
  assumes "fst (client_sql E ddl (ext w)) = Inr q"
  shows "ddl_then_rows E ddl cb xs w =
     (Inr (fst (fan_out cb xs (snd (sql E ddl w)))), snd (fan_out cb xs (snd (sql E ddl w))))"
  using assms by (simp add: ddl_then_rows_def and_then_eq sql_fst case_prod_beta)

lemma ddl_isl:
  "isl (fst (ddl_then_rows E ddl cb xs w)) = isl (fst (client_sql E ddl (ext w)))"
  by (cases "fst (client_sql E ddl (ext w))") (simp_all add: ddl_rejected ddl_accepted)

lemma ddl_rows_accepted:
  assumes "fst (client_sql E ddl (ext w)) = Inr q"
  shows "\<exists>outs. length outs = length xs
     \<and> fst (ddl_then_rows E ddl (\<lambda>x. try_insert E (st x) (msg x)) xs w) = Inr (row_results outs)
     \<and> calls (snd (ddl_then_rows E ddl (\<lambda>x. try_insert E (st x) (msg x)) xs w))
         = calls w @ Sql ddl (Inr q) # row_calls st xs outs
     \<and> console (snd (ddl_then_rows E ddl (\<lambda>x. try_insert E (st x) (msg x)) xs w))
         = console w @ row_logs msg xs outs
     \<and> pending (snd (ddl_then_rows E ddl (\<lambda>x. try_insert E (st x) (msg x)) xs w)) = pending w"
proof -
  from fan_out_rows [of xs E st msg "snd (sql E ddl w)"]
  obtain outs where o: "length outs = length xs"
    "fst (fan_out (\<lambda>x. try_insert E (st x) (msg x)) xs (snd (sql E ddl w))) = row_results outs"
    "calls (snd (fan_out (\<lambda>x. try_insert E (st x) (msg x)) xs (snd (sql E ddl w))))
       = calls (snd (sql E ddl w)) @ row_calls st xs outs"
    "console (snd (fan_out (\<lambda>x. try_insert E (st x) (msg x)) xs (snd (sql E ddl w))))
       = console (snd (sql E ddl w)) @ row_logs msg xs outs"
    "pending (snd (fan_out (\<lambda>x. try_insert E (st x) (msg x)) xs (snd (sql E ddl w))))
       = pending (snd (sql E ddl w))"
    by blast
  show ?thesis
    using o assms by (intro exI [of _ outs]) (simp add: ddl_accepted [OF assms] sql_snd)
qed

lemma ddl_rows_sent:
  "sent (calls (snd (ddl_then_rows E ddl (\<lambda>x. try_insert E (st x) (msg x)) xs w))) =
     sent (calls w) @
       (if isl (fst (ddl_then_rows E ddl (\<lambda>x. try_insert E (st x) (msg x)) xs w))
        then [ddl] else ddl # map st xs)"
proof (cases "fst (client_sql E ddl (ext w))")
  case (Inl e)
  then show ?thesis
    by (simp add: ddl_rejected sql_snd sent_append)
next
  case (Inr q)
  from ddl_rows_accepted [OF Inr, of xs st msg] show ?thesis
    by (auto simp: sent_append sent_row_calls)
qed

lemma hash_failed_row_calls: "filter hash_failed (row_calls st xs outs) = []"
  by (simp add: row_calls_def filter_empty_conv)

lemma ddl_rows_hash_failed:
  "filter hash_failed (calls (snd (ddl_then_rows E ddl (\<lambda>x. try_insert E (st x) (msg x)) xs w)))
     = filter hash_failed (calls w)"
proof (cases "fst (client_sql E ddl (ext w))")
  case (Inl e)
  then show ?thesis by (simp add: ddl_rejected sql_snd)
next
  case (Inr q)
  from ddl_rows_accepted [OF Inr, of xs st msg] show ?thesis
    by (auto simp: hash_failed_row_calls)
qed

lemma sql_inv: "I (ext w) \<Longrightarrow> I (snd (client_sql E s (ext w))) \<Longrightarrow> I (ext (snd (sql E s w)))"
  by (simp add: sql_snd)

lemma try_insert_inv:
  assumes "\<And>x. I x \<Longrightarrow> I (snd (client_sql E s x))" and "I (ext w)"
  shows "I (ext (snd (try_insert E s msg w)))"
  using assms by (simp add: try_insert_snd)

lemma ddl_rows_inv:
  assumes step: "\<And>s x. s = ddl \<or> s \<in> st ` set xs \<Longrightarrow> I x \<Longrightarrow> I (snd (client_sql E s x))"
    and "I (ext w)"
  shows "I (ext (snd (ddl_then_rows E ddl (\<lambda>x. try_insert E (st x) (msg x)) xs w)))"
proof -
  have 1: "I (ext (snd (sql E ddl w)))"
    using assms by (simp add: sql_snd)
  have 2: "I (ext (snd (fan_out (\<lambda>x. try_insert E (st x) (msg x)) xs (snd (sql E ddl w)))))"
    by (rule fan_out_inv [where I = "\<lambda>w. I (ext w)"]) (auto intro: try_insert_inv step 1)
  show ?thesis
    by (cases "fst (client_sql E ddl (ext w))") (simp_all add: ddl_rejected ddl_accepted 1 2)
qed

section \<open>The order in which the hashes settle\<close>

lemma set_settle_order: "set (settle_order s n) = {0..<n}"
  by (auto simp: settle_order_def)

lemma distinct_settle_order: "distinct (settle_order s n)"
  by (auto simp: settle_order_def)

lemma length_settle_order: "length (settle_order s n) = n"
  using distinct_card [OF distinct_settle_order [of s n]] by (simp add: set_settle_order)

text \<open>Every order of the positions is a value of \<open>settle_order\<close>.\<close>

lemma settle_order_same:
  assumes "distinct s" and "set s = {0..<n}"
  shows "settle_order s n = s"
proof -
  have "filter (\<lambda>i. i < n) s = s"
    using assms(2) by (auto intro: filter_True)
  moreover have "filter (\<lambda>i. i \<notin> set s) [0..<n] = []"
    using assms(2) by (auto simp: filter_empty_conv)
  ultimately show ?thesis
    using assms(1) by (simp add: settle_order_def distinct_remdups_id)
qed

lemma length_settled: "length (settled E xs) = length xs"
  by (simp add: settled_def length_settle_order)

lemma set_settled: "set (settled E xs) = set xs"
proof -
  have "set (settled E xs) = (\<lambda>i. xs ! i) ` {0..<length xs}"
    by (simp add: settled_def set_settle_order)
  also have "\<dots> = set xs"
    by (auto simp: set_conv_nth)
  finally show ?thesis .
qed

lemma settled_map: "settled E (map f xs) = map f (settled E xs)"
  by (simp add: settled_def set_settle_order)

lemma settled_enumerate_snd: "map snd (settled E (enumerate 0 xs)) = settled E xs"
  by (simp add: settled_def set_settle_order nth_enumerate_eq)

lemma settled_enumerate_fst:
  "map fst (settled E (enumerate 0 xs)) = settle_order (settles E) (length xs)"
proof -
  have "map (\<lambda>i. fst (enumerate 0 xs ! i)) (settle_order (settles E) (length xs))
      = map (\<lambda>i. i) (settle_order (settles E) (length xs))"
    by (rule map_cong) (simp_all add: set_settle_order nth_enumerate_eq)
  then show ?thesis
    by (simp add: settled_def comp_def)
qed

lemma zip_projr: "map (\<lambda>uh. (fst uh, projr (snd uh))) (zip us rs) = zip us (map projr rs)"
  by (simp add: zip_map2 case_prod_beta)


lemma zip_snd_ex:
  "length us = length rs \<Longrightarrow> (\<exists>uh \<in> set (zip us rs). Q (snd uh)) = (\<exists>r \<in> set rs. Q r)"
  by (induction us rs rule: list_induct2) auto

lemma zip_snd_all:
  "length us = length rs \<Longrightarrow> (\<forall>uh \<in> set (zip us rs). Q (snd uh)) = (\<forall>r \<in> set rs. Q r)"
  by (induction us rs rule: list_induct2) auto

section \<open>The users step\<close>

lemma and_then_wrap_snd: "snd (and_then m (\<lambda>a s. (Inr (g a), s))) = snd m"
  by (cases "fst m") (simp_all add: and_then_eq)

lemma and_then_wrap_isl: "isl (fst (and_then m (\<lambda>a s. (Inr (g a), s)))) = isl (fst m)"
  by (cases "fst m") (simp_all add: and_then_eq)

lemma and_then_wrap_fst:
  "fst (and_then m (\<lambda>a s. (Inr (g a), s))) = (case fst m of Inl e \<Rightarrow> Inl e | Inr a \<Rightarrow> Inr (g a))"
  by (cases "fst m") (simp_all add: and_then_eq)

lemma user_callbacks_Inr:
  "user_callbacks E ((i, u, Inr h) # rest) vals w =
     user_callbacks E rest (vals[i := fst (insert_user E u h w)]) (snd (insert_user E u h w))"
  by (simp add: case_prod_beta)

lemma insert_user_fst:
  "fst (insert_user E u h w) =
     (case fst (client_sql E (user_stmt (u, h)) (ext w)) of Inl e \<Rightarrow> None | Inr q \<Rightarrow> Some q)"
  by (simp add: insert_user_shape try_insert_fst)

lemma insert_user_snd:
  "snd (insert_user E u h w) =
     w\<lparr>ext := snd (client_sql E (user_stmt (u, h)) (ext w)),
       calls := calls w @ [Sql (user_stmt (u, h)) (fst (client_sql E (user_stmt (u, h)) (ext w)))],
       console := console w @ (case fst (client_sql E (user_stmt (u, h)) (ext w)) of
                    Inl e \<Rightarrow> [(user_msg (u, h), e)] | Inr q \<Rightarrow> [])\<rparr>"
  by (simp add: insert_user_shape try_insert_snd)

text \<open>The hashes of the users fan-out.\<close>

lemma hash_fan_out:
  "length (fst (fan_out (\<lambda>u. hash E (u_password u) 10) us w)) = length us
   \<and> calls (snd (fan_out (\<lambda>u. hash E (u_password u) 10) us w)) =
       calls w @ map (\<lambda>ur. Hash (u_password (fst ur)) 10 (snd ur))
         (zip us (fst (fan_out (\<lambda>u. hash E (u_password u) 10) us w)))
   \<and> console (snd (fan_out (\<lambda>u. hash E (u_password u) 10) us w)) = console w
   \<and> pending (snd (fan_out (\<lambda>u. hash E (u_password u) 10) us w)) = pending w"
proof (induction us arbitrary: w)
  case Nil
  show ?case by simp
next
  case (Cons u us)
  show ?case
    using Cons.IH [of "snd (hash E (u_password u) 10 w)"]
    by (simp add: fan_out_Cons hash_snd hash_fst del: fan_out.simps(2))
qed

lemma length_hashes: "length (hashes E P w) = length (users P)"
  using hash_fan_out [of E "users P" "snd (sql E CREATE_TABLE_users w)"] by (simp add: hashes_def)

lemma zip_hashes_all:
  "(\<forall>uh \<in> set (zip (users P) (hashes E P w)). \<not> isl (snd uh))
     = (\<forall>r \<in> set (hashes E P w). \<not> isl r)"
  by (rule zip_snd_all [where Q = "\<lambda>r. \<not> isl r"]) (simp add: length_hashes)

lemma sent_hash_calls: "sent (map (\<lambda>ur. Hash (f ur) c (g ur)) xs) = []"
  by (induction xs) simp_all

lemma hash_inv: "(\<And>p c x. I x \<Longrightarrow> I (snd (bcrypt_hash E p c x))) \<Longrightarrow> I (ext w)
    \<Longrightarrow> I (ext (snd (hash E p c w)))"
  by (simp add: hash_snd)

lemma hash_fan_out_inv:
  assumes "\<And>p c x. I x \<Longrightarrow> I (snd (bcrypt_hash E p c x))" and "I (ext w)"
  shows "I (ext (snd (fan_out (\<lambda>u. hash E (u_password u) 10) us w)))"
  by (rule fan_out_inv [where I = "\<lambda>w. I (ext w)"]) (auto intro: hash_inv assms)

lemma hash_results:
  "(u, r) \<in> set (zip us (fst (fan_out (\<lambda>u. hash E (u_password u) 10) us w)))
     \<Longrightarrow> u \<in> set us \<and> (\<exists>y. r = fst (bcrypt_hash E (u_password u) 10 y))"
proof (induction us arbitrary: w)
  case Nil
  then show ?case by simp
next
  case (Cons a us)
  then show ?case
    by (auto simp: fan_out_Cons hash_fst simp del: fan_out.simps(2))
qed

text \<open>The callbacks ahead of the first failed hash, and the ones behind it.\<close>

lemma hashed_first_simps:
  "hashed_first [] = []"
  "hashed_first ((u, Inl e) # uhs) = []"
  "hashed_first ((u, Inr h) # uhs) = (u, h) # hashed_first uhs"
  by (simp_all add: hashed_first_def)

lemma left_in_flight_simps:
  "left_in_flight [] = []"
  "left_in_flight ((u, Inl e) # uhs) = uhs"
  "left_in_flight ((u, Inr h) # uhs) = left_in_flight uhs"
  by (simp_all add: left_in_flight_def)



lemma hashed_first_take:
  "hashed_first uhs =
     take (length (takeWhile (\<lambda>uh. \<not> isl (snd uh)) uhs)) (map (\<lambda>uh. (fst uh, projr (snd uh))) uhs)"
  unfolding hashed_first_def by (subst takeWhile_eq_take) (simp only: take_map)

lemma set_left_in_flight: "set (left_in_flight uhs) \<subseteq> set uhs"
proof -
  have "set (tl ys) \<subseteq> set ys" for ys :: "(user \<times> (error + string)) list"
    by (cases ys) auto
  then have "set (left_in_flight uhs) \<subseteq> set (dropWhile (\<lambda>uh. \<not> isl (snd uh)) uhs)"
    unfolding left_in_flight_def .
  also have "\<dots> \<subseteq> set uhs"
    by (auto dest: set_dropWhileD)
  finally show ?thesis .
qed

lemma set_hashed_first: "(u, h) \<in> set (hashed_first uhs) \<Longrightarrow> (u, Inr h) \<in> set uhs"
proof (induction uhs)
  case Nil
  then show ?case by (simp add: hashed_first_simps)
next
  case (Cons uh uhs)
  obtain u' r where uh: "uh = (u', r)" by (cases uh)
  show ?case
    using Cons unfolding uh by (cases r) (auto simp: hashed_first_simps)
qed

text \<open>
  What the callbacks of the users step do, taken in the order \<open>its\<close> in which their hashes
  settle: the inserts of the callbacks ahead of the first failed hash are sent in this
  order, with answers \<open>outs\<close>; the callbacks behind it are left in flight; the fan-out
  rejects exactly when a hash has failed, with the error of the first one to fail; and
  when no hash fails, the result of each callback is in the array at its own position.
\<close>

lemma user_callbacks_run:
  "\<exists>outs. length outs = length (hashed_first (map snd its))
     \<and> calls (snd (user_callbacks E its vals w)) =
         calls w @ row_calls user_stmt (hashed_first (map snd its)) outs
     \<and> console (snd (user_callbacks E its vals w)) =
         console w @ row_logs user_msg (hashed_first (map snd its)) outs
     \<and> pending (snd (user_callbacks E its vals w)) = pending w @ left_in_flight (map snd its)
     \<and> isl (fst (user_callbacks E its vals w)) = (\<exists>uh \<in> set (map snd its). isl (snd uh))
     \<and> (\<forall>e. fst (user_callbacks E its vals w) = Inl e \<longrightarrow>
           (\<exists>u rest. dropWhile (\<lambda>uh. \<not> isl (snd uh)) (map snd its) = (u, Inl e) # rest))
     \<and> (distinct (map fst its) \<and> (\<forall>i \<in> set (map fst its). i < length vals)
          \<and> \<not> (\<exists>uh \<in> set (map snd its). isl (snd uh)) \<longrightarrow>
           (\<exists>vals'. fst (user_callbacks E its vals w) = Inr vals' \<and> length vals' = length vals
              \<and> map (\<lambda>i. vals' ! i) (map fst its) = row_results outs
              \<and> (\<forall>j. j \<notin> set (map fst its) \<longrightarrow> vals' ! j = vals ! j)))"
proof (induction E its vals w rule: user_callbacks.induct)
  case (1 E vals w)
  show ?case
    by (intro exI [of _ "[]"])
       (simp add: hashed_first_simps left_in_flight_simps row_calls_def row_logs_def
          row_results_def)
next
  case (2 E i u e rest vals w)
  show ?case
    by (intro exI [of _ "[]"])
       (simp add: hashed_first_simps left_in_flight_simps row_calls_def row_logs_def
          row_results_def)
next
  case (3 E i u h rest vals w)
  let ?out = "fst (client_sql E (user_stmt (u, h)) (ext w))"
  let ?r = "fst (insert_user E u h w)"
  let ?w1 = "snd (insert_user E u h w)"
  let ?R = "user_callbacks E rest (vals[i := ?r]) ?w1"
  let ?uhs = "map snd rest"
  from 3 [OF prod.collapse] obtain outs where o:
    "length outs = length (hashed_first ?uhs)"
    "calls (snd ?R) = calls ?w1 @ row_calls user_stmt (hashed_first ?uhs) outs"
    "console (snd ?R) = console ?w1 @ row_logs user_msg (hashed_first ?uhs) outs"
    "pending (snd ?R) = pending ?w1 @ left_in_flight ?uhs"
    "isl (fst ?R) = (\<exists>uh \<in> set ?uhs. isl (snd uh))"
    "\<forall>e. fst ?R = Inl e \<longrightarrow>
           (\<exists>u rest'. dropWhile (\<lambda>uh. \<not> isl (snd uh)) ?uhs = (u, Inl e) # rest')"
    "distinct (map fst rest) \<and> (\<forall>j \<in> set (map fst rest). j < length (vals[i := ?r]))
          \<and> \<not> (\<exists>uh \<in> set ?uhs. isl (snd uh)) \<longrightarrow>
           (\<exists>vals'. fst ?R = Inr vals' \<and> length vals' = length (vals[i := ?r])
              \<and> map (\<lambda>j. vals' ! j) (map fst rest) = row_results outs
              \<and> (\<forall>j. j \<notin> set (map fst rest) \<longrightarrow> vals' ! j = (vals[i := ?r]) ! j))"
    by blast
  have eq: "user_callbacks E ((i, u, Inr h) # rest) vals w = ?R"
    by (rule user_callbacks_Inr)
  have vals: "\<exists>vals'. fst ?R = Inr vals' \<and> length vals' = length vals
              \<and> map (\<lambda>j. vals' ! j) (i # map fst rest) = row_results (?out # outs)
              \<and> (\<forall>j. j \<notin> set (i # map fst rest) \<longrightarrow> vals' ! j = vals ! j)"
    if d: "distinct (i # map fst rest)" and b: "\<forall>j \<in> set (i # map fst rest). j < length vals"
      and n: "\<not> (\<exists>uh \<in> set ?uhs. isl (snd uh))"
  proof -
    from o(7) d b n obtain vals' where v: "fst ?R = Inr vals'" "length vals' = length vals"
      "map (\<lambda>j. vals' ! j) (map fst rest) = row_results outs"
      "\<forall>j. j \<notin> set (map fst rest) \<longrightarrow> vals' ! j = (vals[i := ?r]) ! j"
      by auto
    from d have "i \<notin> set (map fst rest)" by simp
    with v(4) b have "vals' ! i = ?r" by simp
    then have "vals' ! i = (case ?out of Inl e \<Rightarrow> None | Inr q \<Rightarrow> Some q)"
      by (simp add: insert_user_fst)
    with v show ?thesis
      by (intro exI [of _ vals']) (auto simp: row_results_def)
  qed
  show ?case
    unfolding eq
    using o(1-6) vals
    by (intro exI [of _ "?out # outs"])
       (simp add: hashed_first_simps left_in_flight_simps row_calls_def row_logs_def
          insert_user_snd split: sum.split)
qed

lemma user_callbacks_inv:
  assumes "\<And>u h x. (u, Inr h) \<in> set (map snd its) \<Longrightarrow> I x
      \<Longrightarrow> I (snd (client_sql E (user_stmt (u, h)) x))"
    and "I (ext w)"
  shows "I (ext (snd (user_callbacks E its vals w)))"
  using assms
proof (induction E its vals w rule: user_callbacks.induct)
  case (1 E vals w)
  then show ?case by simp
next
  case (2 E i u e rest vals w)
  then show ?case by simp
next
  case (3 E i u h rest vals w)
  let ?w1 = "snd (insert_user E u h w)"
  have a: "I (ext ?w1)"
    using "3.prems" by (simp add: insert_user_snd)
  have b: "\<And>u' h' x. (u', Inr h') \<in> set (map snd rest) \<Longrightarrow> I x
      \<Longrightarrow> I (snd (client_sql E (user_stmt (u', h')) x))"
    using "3.prems"(1) by simp
  have "I (ext (snd (user_callbacks E rest (vals[i := fst (insert_user E u h w)]) ?w1)))"
    by (rule "3.IH" [OF prod.collapse]) (rule b, assumption+, rule a)
  then show ?case
    by (simp only: user_callbacks_Inr)
qed

text \<open>The users step as a whole.\<close>

lemma seedUsers_rejected:
  assumes "fst (client_sql E CREATE_TABLE_users (ext w)) = Inl e"
  shows "seedUsers E P w = (Inl e, snd (sql E CREATE_TABLE_users w))"
  using assms by (simp add: seedUsers_def and_then_eq sql_fst)

lemma seedUsers_accepted:
  assumes "fst (client_sql E CREATE_TABLE_users (ext w)) = Inr q"
  shows "seedUsers E P w =
     user_callbacks E (settled E (enumerate 0 (zip (users P) (hashes E P w))))
       (replicate (length (users P)) None)
       (snd (fan_out (\<lambda>u. hash E (u_password u) 10) (users P) (snd (sql E CREATE_TABLE_users w))))"
  using assms by (simp add: seedUsers_def and_then_eq sql_fst case_prod_beta hashes_def)

lemma seedUsers_run:
  assumes ddl: "fst (client_sql E CREATE_TABLE_users (ext w)) = Inr q"
  shows "\<exists>outs. length outs = length (hashed_first (settled E (zip (users P) (hashes E P w))))
     \<and> calls (snd (seedUsers E P w)) =
         calls w @ Sql CREATE_TABLE_users (Inr q)
           # map (\<lambda>ur. Hash (u_password (fst ur)) 10 (snd ur)) (zip (users P) (hashes E P w))
           @ row_calls user_stmt (hashed_first (settled E (zip (users P) (hashes E P w)))) outs
     \<and> console (snd (seedUsers E P w)) =
         console w @ row_logs user_msg (hashed_first (settled E (zip (users P) (hashes E P w)))) outs
     \<and> pending (snd (seedUsers E P w)) =
         pending w @ left_in_flight (settled E (zip (users P) (hashes E P w)))
     \<and> isl (fst (seedUsers E P w)) = (\<exists>r \<in> set (hashes E P w). isl r)
     \<and> (\<forall>e. fst (seedUsers E P w) = Inl e \<longrightarrow>
           (\<exists>u rest. dropWhile (\<lambda>uh. \<not> isl (snd uh)) (settled E (zip (users P) (hashes E P w)))
              = (u, Inl e) # rest))
     \<and> (\<not> (\<exists>r \<in> set (hashes E P w). isl r) \<longrightarrow>
           (\<exists>vals. fst (seedUsers E P w) = Inr vals \<and> length vals = length (users P)
              \<and> settled E vals = row_results outs))"
proof -
  let ?w1 = "snd (sql E CREATE_TABLE_users w)"
  let ?H = "fan_out (\<lambda>u. hash E (u_password u) 10) (users P) ?w1"
  let ?rs = "hashes E P w"
  let ?its = "settled E (enumerate 0 (zip (users P) ?rs))"
  let ?uhs = "settled E (zip (users P) ?rs)"
  let ?vals = "replicate (length (users P)) (None :: query_result option)"
  let ?R = "user_callbacks E ?its ?vals (snd ?H)"
  have len: "length ?rs = length (users P)"
    by (rule length_hashes)
  have H: "calls (snd ?H) = calls w @ Sql CREATE_TABLE_users (Inr q)
      # map (\<lambda>ur. Hash (u_password (fst ur)) 10 (snd ur)) (zip (users P) ?rs)"
    "console (snd ?H) = console w" "pending (snd ?H) = pending w"
    using hash_fan_out [of E "users P" ?w1] ddl by (simp_all add: sql_snd hashes_def)
  have s: "map snd ?its = ?uhs"
    by (rule settled_enumerate_snd)
  have f: "map fst ?its = settle_order (settles E) (length (users P))"
    by (simp add: settled_enumerate_fst len)
  have e: "(\<exists>uh \<in> set ?uhs. isl (snd uh)) = (\<exists>r \<in> set ?rs. isl r)"
    using len by (simp add: set_settled zip_snd_ex)
  from user_callbacks_run [of ?its E ?vals "snd ?H"] obtain outs where o:
    "length outs = length (hashed_first ?uhs)"
    "calls (snd ?R) = calls (snd ?H) @ row_calls user_stmt (hashed_first ?uhs) outs"
    "console (snd ?R) = console (snd ?H) @ row_logs user_msg (hashed_first ?uhs) outs"
    "pending (snd ?R) = pending (snd ?H) @ left_in_flight ?uhs"
    "isl (fst ?R) = (\<exists>uh \<in> set ?uhs. isl (snd uh))"
    "\<forall>e. fst ?R = Inl e \<longrightarrow>
           (\<exists>u rest. dropWhile (\<lambda>uh. \<not> isl (snd uh)) ?uhs = (u, Inl e) # rest)"
    "distinct (map fst ?its) \<and> (\<forall>i \<in> set (map fst ?its). i < length ?vals)
          \<and> \<not> (\<exists>uh \<in> set ?uhs. isl (snd uh)) \<longrightarrow>
           (\<exists>vals'. fst ?R = Inr vals' \<and> length vals' = length ?vals
              \<and> map (\<lambda>i. vals' ! i) (map fst ?its) = row_results outs
              \<and> (\<forall>j. j \<notin> set (map fst ?its) \<longrightarrow> vals' ! j = ?vals ! j))"
    unfolding s by blast
  have v: "\<exists>vals. fst ?R = Inr vals \<and> length vals = length (users P)
              \<and> settled E vals = row_results outs"
    if "\<not> (\<exists>r \<in> set ?rs. isl r)"
  proof -
    from o(7) that obtain vals' where "fst ?R = Inr vals'" "length vals' = length (users P)"
      "map (\<lambda>i. vals' ! i) (settle_order (settles E) (length (users P))) = row_results outs"
      unfolding f e by (auto simp: distinct_settle_order set_settle_order)
    then show ?thesis
      by (intro exI [of _ vals']) (simp add: settled_def)
  qed
  show ?thesis
    unfolding seedUsers_accepted [OF ddl]
    using o(1-6) v by (intro exI [of _ outs]) (simp add: H e)
qed


lemma seedUsers_isl:
  "isl (fst (seedUsers E P w)) \<longleftrightarrow>
     isl (fst (client_sql E CREATE_TABLE_users (ext w))) \<or> (\<exists>r \<in> set (hashes E P w). isl r)"
proof (cases "fst (client_sql E CREATE_TABLE_users (ext w))")
  case (Inl e)
  then show ?thesis by (simp add: seedUsers_rejected)
next
  case (Inr q)
  from seedUsers_run [OF Inr, of P] show ?thesis
    using Inr by auto
qed

lemma seedUsers_sent_exact:
  "sent (calls (snd (seedUsers E P w))) =
     sent (calls w) @ CREATE_TABLE_users #
       (if isl (fst (client_sql E CREATE_TABLE_users (ext w))) then []
        else map user_stmt (hashed_first (settled E (zip (users P) (hashes E P w)))))"
proof (cases "fst (client_sql E CREATE_TABLE_users (ext w))")
  case (Inl e)
  then show ?thesis by (simp add: seedUsers_rejected sql_snd sent_append)
next
  case (Inr q)
  from seedUsers_run [OF Inr, of P] obtain outs where
    "length outs = length (hashed_first (settled E (zip (users P) (hashes E P w))))"
    "calls (snd (seedUsers E P w)) =
         calls w @ Sql CREATE_TABLE_users (Inr q)
           # map (\<lambda>ur. Hash (u_password (fst ur)) 10 (snd ur)) (zip (users P) (hashes E P w))
           @ row_calls user_stmt (hashed_first (settled E (zip (users P) (hashes E P w)))) outs"
    by blast
  then show ?thesis
    using Inr by (simp add: sent_append sent_hash_calls sent_row_calls)
qed

lemma hashed_first_settled:
  "hashed_first (settled E (zip us rs)) =
     take (length (takeWhile (\<lambda>uh. \<not> isl (snd uh)) (settled E (zip us rs))))
       (settled E (zip us (map projr rs)))"
  by (simp only: hashed_first_take settled_map [symmetric] zip_projr)

lemma seedUsers_sent:
  "\<exists>hs k. length hs = length (users P) \<and> k \<le> length (users P)
     \<and> sent (calls (snd (seedUsers E P w))) = sent (calls w) @ take (Suc k) (users_part E P hs)
     \<and> (\<not> isl (fst (seedUsers E P w)) \<longrightarrow> k = length (users P))"
proof (cases "fst (client_sql E CREATE_TABLE_users (ext w))")
  case (Inl e)
  show ?thesis
    by (intro exI [of _ "replicate (length (users P)) []"] exI [of _ 0])
       (simp add: seedUsers_rejected [OF Inl] sql_snd sent_append users_part_def)
next
  case (Inr q)
  let ?rs = "hashes E P w"
  let ?uhs = "settled E (zip (users P) ?rs)"
  let ?k = "length (takeWhile (\<lambda>uh. \<not> isl (snd uh)) ?uhs)"
  have len: "length ?rs = length (users P)"
    by (rule length_hashes)
  have n: "length ?uhs = length (users P)"
    by (simp add: length_settled len)
  have k: "?k \<le> length (users P)"
    using length_takeWhile_le [of "\<lambda>uh. \<not> isl (snd uh)" ?uhs] by (simp only: n)
  have s: "sent (calls (snd (seedUsers E P w))) =
      sent (calls w) @ take (Suc ?k) (users_part E P (map projr ?rs))"
    using Inr
    by (simp add: seedUsers_sent_exact hashed_first_settled users_part_def take_map)
  have full: "?k = length (users P)" if "\<not> isl (fst (seedUsers E P w))"
  proof -
    from that have "\<forall>uh \<in> set ?uhs. \<not> isl (snd uh)"
      by (simp add: seedUsers_isl set_settled zip_hashes_all)
    then have "takeWhile (\<lambda>uh. \<not> isl (snd uh)) ?uhs = ?uhs"
      by (simp add: takeWhile_eq_all_conv)
    then show ?thesis by (simp only: n)
  qed
  show ?thesis
    using k s full len by (intro exI [of _ "map projr ?rs"] exI [of _ ?k]) simp
qed

lemma hash_failed_hash_calls:
  "filter hash_failed (map (\<lambda>ur. Hash (f ur) c (snd ur)) (zip us rs)) = []
     \<longleftrightarrow> (\<forall>ur \<in> set (zip us rs). \<not> isl (snd ur))"
proof -
  have "hash_failed (Hash p c r) = isl r" for p r
    by (cases r) simp_all
  then show ?thesis
    by (auto simp: filter_empty_conv)
qed

lemma seedUsers_hash_failed:
  assumes "\<not> isl (fst (seedUsers E P w))"
  shows "filter hash_failed (calls (snd (seedUsers E P w))) = filter hash_failed (calls w)"
proof (cases "fst (client_sql E CREATE_TABLE_users (ext w))")
  case (Inl e)
  with assms show ?thesis by (simp add: seedUsers_rejected)
next
  case (Inr q)
  from assms have "\<forall>ur \<in> set (zip (users P) (hashes E P w)). \<not> isl (snd ur)"
    by (simp add: seedUsers_isl zip_hashes_all)
  then have h: "filter hash_failed (map (\<lambda>ur. Hash (u_password (fst ur)) 10 (snd ur))
      (zip (users P) (hashes E P w))) = []"
    by (simp only: hash_failed_hash_calls)
  from seedUsers_run [OF Inr, of P] obtain outs where
    "calls (snd (seedUsers E P w)) =
         calls w @ Sql CREATE_TABLE_users (Inr q)
           # map (\<lambda>ur. Hash (u_password (fst ur)) 10 (snd ur)) (zip (users P) (hashes E P w))
           @ row_calls user_stmt (hashed_first (settled E (zip (users P) (hashes E P w)))) outs"
    by blast
  then show ?thesis
    by (simp add: h hash_failed_row_calls)
qed



lemma seedUsers_inv:
  assumes ddl: "\<And>x. I x \<Longrightarrow> I (snd (client_sql E CREATE_TABLE_users x))"
    and hsh: "\<And>p c x. I x \<Longrightarrow> I (snd (bcrypt_hash E p c x))"
    and ins: "\<And>u h y x. u \<in> set (users P) \<Longrightarrow> fst (bcrypt_hash E (u_password u) 10 y) = Inr h
        \<Longrightarrow> I x \<Longrightarrow> I (snd (client_sql E (user_stmt (u, h)) x))"
    and "I (ext w)"
  shows "I (ext (snd (seedUsers E P w)))"
proof (cases "fst (client_sql E CREATE_TABLE_users (ext w))")
  case (Inl e)
  then show ?thesis using assms by (simp add: seedUsers_rejected sql_snd)
next
  case (Inr q)
  let ?w1 = "snd (sql E CREATE_TABLE_users w)"
  let ?H = "fan_out (\<lambda>u. hash E (u_password u) 10) (users P) ?w1"
  let ?its = "settled E (enumerate 0 (zip (users P) (hashes E P w)))"
  have "I (ext ?w1)" using assms by (simp add: sql_snd)
  then have "I (ext (snd ?H))"
    by (rule hash_fan_out_inv [rotated]) (rule hsh)
  then have "I (ext (snd (user_callbacks E ?its (replicate (length (users P)) None) (snd ?H))))"
  proof (rule user_callbacks_inv [rotated])
    fix u h x
    assume "(u, Inr h) \<in> set (map snd ?its)" and x: "I x"
    then have "(u, Inr h) \<in> set (zip (users P) (fst ?H))"
      by (simp add: settled_enumerate_snd set_settled hashes_def)
    from hash_results [OF this] obtain y where "u \<in> set (users P)"
      "fst (bcrypt_hash E (u_password u) 10 y) = Inr h"
      by metis
    then show "I (snd (client_sql E (user_stmt (u, h)) x))"
      using x by (rule ins)
  qed
  then show ?thesis by (simp add: seedUsers_accepted [OF Inr])
qed

lemma seedUsers_pending:
  "\<exists>left. pending (snd (seedUsers E P w)) = pending w @ left
     \<and> (\<forall>(u, r) \<in> set left. u \<in> set (users P)
           \<and> (\<exists>y. r = fst (bcrypt_hash E (u_password u) 10 y)))
     \<and> (\<not> isl (fst (seedUsers E P w)) \<longrightarrow> left = [])"
proof (cases "fst (client_sql E CREATE_TABLE_users (ext w))")
  case (Inl e)
  then show ?thesis by (simp add: seedUsers_rejected sql_snd)
next
  case (Inr q)
  let ?uhs = "settled E (zip (users P) (hashes E P w))"
  from seedUsers_run [OF Inr, of P]
  have p: "pending (snd (seedUsers E P w)) = pending w @ left_in_flight ?uhs"
    by blast
  have "u \<in> set (users P) \<and> (\<exists>y. r = fst (bcrypt_hash E (u_password u) 10 y))"
    if "(u, r) \<in> set (left_in_flight ?uhs)" for u r
  proof -
    from that set_left_in_flight [of ?uhs] have "(u, r) \<in> set (zip (users P) (hashes E P w))"
      by (auto simp: set_settled)
    then show ?thesis
      unfolding hashes_def by (rule hash_results)
  qed
  moreover have "left_in_flight ?uhs = []" if "\<not> isl (fst (seedUsers E P w))"
  proof -
    from that have "\<forall>uh \<in> set ?uhs. \<not> isl (snd uh)"
      by (simp add: seedUsers_isl set_settled zip_hashes_all)
    then have "dropWhile (\<lambda>uh. \<not> isl (snd uh)) ?uhs = []"
      by (simp only: dropWhile_eq_Nil_conv)
    then show ?thesis by (simp only: left_in_flight_def list.sel)
  qed
  ultimately show ?thesis
    using p by (intro exI [of _ "left_in_flight ?uhs"]) auto
qed

section \<open>The try block of the seed handler\<close>

lemmas stage_defs =
  w_begin_def w_ext_def w_users_def w_customers_def w_invoices_def w_revenue_def w_commit_def

lemma seed_try_cases [case_names at_begin at_ext at_users at_customers at_invoices at_revenue at_commit seeded]:
  obtains
    e where "fst (sql E BEGIN w) = Inl e" "seed_try E P w = (Inl e, w_begin E w)"
  | e where "\<not> isl (fst (sql E BEGIN w))"
      "fst (createExtensions E (w_begin E w)) = Inl e" "seed_try E P w = (Inl e, w_ext E w)"
  | e where "\<not> isl (fst (sql E BEGIN w))" "\<not> isl (fst (createExtensions E (w_begin E w)))"
      "fst (seedUsers E P (w_ext E w)) = Inl e" "seed_try E P w = (Inl e, w_users E P w)"
  | e where "\<not> isl (fst (sql E BEGIN w))" "\<not> isl (fst (createExtensions E (w_begin E w)))"
      "\<not> isl (fst (seedUsers E P (w_ext E w)))"
      "fst (seedCustomers E P (w_users E P w)) = Inl e" "seed_try E P w = (Inl e, w_customers E P w)"
  | e where "\<not> isl (fst (sql E BEGIN w))" "\<not> isl (fst (createExtensions E (w_begin E w)))"
      "\<not> isl (fst (seedUsers E P (w_ext E w)))" "\<not> isl (fst (seedCustomers E P (w_users E P w)))"
      "fst (seedInvoices E P (w_customers E P w)) = Inl e"
      "seed_try E P w = (Inl e, w_invoices E P w)"
  | e where "\<not> isl (fst (sql E BEGIN w))" "\<not> isl (fst (createExtensions E (w_begin E w)))"
      "\<not> isl (fst (seedUsers E P (w_ext E w)))" "\<not> isl (fst (seedCustomers E P (w_users E P w)))"
      "\<not> isl (fst (seedInvoices E P (w_customers E P w)))"
      "fst (seedRevenue E P (w_invoices E P w)) = Inl e"
      "seed_try E P w = (Inl e, w_revenue E P w)"
  | e where "\<not> isl (fst (sql E BEGIN w))" "\<not> isl (fst (createExtensions E (w_begin E w)))"
      "\<not> isl (fst (seedUsers E P (w_ext E w)))" "\<not> isl (fst (seedCustomers E P (w_users E P w)))"
      "\<not> isl (fst (seedInvoices E P (w_customers E P w)))"
      "\<not> isl (fst (seedRevenue E P (w_invoices E P w)))"
      "fst (sql E COMMIT (w_revenue E P w)) = Inl e"
      "seed_try E P w = (Inl e, w_commit E P w)"
  | "\<not> isl (fst (sql E BEGIN w))" "\<not> isl (fst (createExtensions E (w_begin E w)))"
      "\<not> isl (fst (seedUsers E P (w_ext E w)))" "\<not> isl (fst (seedCustomers E P (w_users E P w)))"
      "\<not> isl (fst (seedInvoices E P (w_customers E P w)))"
      "\<not> isl (fst (seedRevenue E P (w_invoices E P w)))"
      "\<not> isl (fst (sql E COMMIT (w_revenue E P w)))"
      "seed_try E P w = (Inr (Response_new ''Database seeded successfully'' None []), w_commit E P w)"
proof (cases "fst (sql E BEGIN w)")
  case (Inl e)
  then show ?thesis using that(1) by (simp add: seed_try_def and_then_eq stage_defs)
next
  case 1: (Inr a1)
  show ?thesis
  proof (cases "fst (createExtensions E (w_begin E w))")
    case (Inl e)
    then show ?thesis using that(2) 1 by (simp add: seed_try_def and_then_eq stage_defs)
  next
    case 2: (Inr a2)
    show ?thesis
    proof (cases "fst (seedUsers E P (w_ext E w))")
      case (Inl e)
      then show ?thesis using that(3) 1 2 by (simp add: seed_try_def and_then_eq stage_defs)
    next
      case 3: (Inr a3)
      show ?thesis
      proof (cases "fst (seedCustomers E P (w_users E P w))")
        case (Inl e)
        then show ?thesis using that(4) 1 2 3 by (simp add: seed_try_def and_then_eq stage_defs)
      next
        case 4: (Inr a4)
        show ?thesis
        proof (cases "fst (seedInvoices E P (w_customers E P w))")
          case (Inl e)
          then show ?thesis using that(5) 1 2 3 4
            by (simp add: seed_try_def and_then_eq stage_defs)
        next
          case 5: (Inr a5)
          show ?thesis
          proof (cases "fst (seedRevenue E P (w_invoices E P w))")
            case (Inl e)
            then show ?thesis using that(6) 1 2 3 4 5
              by (simp add: seed_try_def and_then_eq stage_defs)
          next
            case 6: (Inr a6)
            show ?thesis
            proof (cases "fst (sql E COMMIT (w_revenue E P w))")
              case (Inl e)
              then show ?thesis using that(7) 1 2 3 4 5 6
                by (simp add: seed_try_def and_then_eq stage_defs)
            next
              case (Inr a7)
              then show ?thesis using that(8) 1 2 3 4 5 6
                by (simp add: seed_try_def and_then_eq stage_defs)
            qed
          qed
        qed
      qed
    qed
  qed
qed

lemma createExtensions_fst: "fst (createExtensions E w) =
    (case fst (client_sql E CREATE_EXTENSION (ext w)) of Inl e \<Rightarrow> Inl e | Inr q \<Rightarrow> Inr ())"
  by (simp add: createExtensions_def and_then_wrap_fst sql_fst)

lemma createExtensions_snd: "snd (createExtensions E w) = snd (sql E CREATE_EXTENSION w)"
  by (simp add: createExtensions_def and_then_wrap_snd)

lemma GET_seed_ok:
  "seed_try E P w = (Inr r, w1) \<Longrightarrow> GET_seed E P w = (Inr r, w1)"
  by (simp add: GET_seed_def)

lemma GET_seed_failed:
  "seed_try E P w = (Inl e, w1) \<Longrightarrow>
   GET_seed E P w =
     (case fst (client_sql E ROLLBACK (ext w1)) of
        Inl e2 \<Rightarrow> (Inl e2, snd (sql E ROLLBACK w1))
      | Inr q \<Rightarrow> (Inr (Response_new ''Error seeding database'' (Some 500) []),
                  console_error ''Error during database seeding:'' e (snd (sql E ROLLBACK w1))))"
  by (simp add: GET_seed_def and_then_eq sql_fst)

lemma GET_seed_failed_calls:
  "seed_try E P w = (Inl e, w1) \<Longrightarrow>
   calls (snd (GET_seed E P w)) = calls w1 @ [Sql ROLLBACK (fst (client_sql E ROLLBACK (ext w1)))]"
  by (simp add: GET_seed_failed sql_snd console_error_def split: sum.split)

lemma GET_seed_failed_not_seeded:
  "seed_try E P w = (Inl e, w1) \<Longrightarrow>
   fst (GET_seed E P w) \<noteq> Inr (Response_new ''Database seeded successfully'' None [])"
  by (auto simp: GET_seed_failed Response_new_def split: sum.split)

text \<open>
  The try block throws exactly when \<^verbatim>\<open>BEGIN\<close>, the extension statement, a step or
  \<^verbatim>\<open>COMMIT\<close> does; and a step throws exactly when its table statement is rejected or, in
  the users step, a hash fails.
\<close>

lemma seed_try_throws_iff:
  "isl (fst (seed_try E P w)) \<longleftrightarrow>
     isl (fst (sql E BEGIN w))
     \<or> isl (fst (createExtensions E (w_begin E w)))
     \<or> isl (fst (seedUsers E P (w_ext E w)))
     \<or> isl (fst (seedCustomers E P (w_users E P w)))
     \<or> isl (fst (seedInvoices E P (w_customers E P w)))
     \<or> isl (fst (seedRevenue E P (w_invoices E P w)))
     \<or> isl (fst (sql E COMMIT (w_revenue E P w)))"
  by (cases rule: seed_try_cases [where E = E and w = w and P = P]) simp_all

lemma step_throws_iff:
  "isl (fst (createExtensions E w)) = isl (fst (client_sql E CREATE_EXTENSION (ext w)))"
  "isl (fst (seedCustomers E P w)) = isl (fst (client_sql E CREATE_TABLE_customers (ext w)))"
  "isl (fst (seedInvoices E P w)) = isl (fst (client_sql E CREATE_TABLE_invoices (ext w)))"
  "isl (fst (seedRevenue E P w)) = isl (fst (client_sql E CREATE_TABLE_revenue (ext w)))"
  by (simp_all add: createExtensions_fst seedCustomers_shape seedInvoices_shape seedRevenue_shape
      ddl_isl split: sum.split)

text \<open>The statements sent up to each stage.\<close>

lemma sent_w_begin: "sent (calls (w_begin E w)) = sent (calls w) @ [BEGIN]"
  by (simp add: w_begin_def sql_snd sent_append)

lemma sent_w_ext: "sent (calls (w_ext E w)) = sent (calls w) @ [BEGIN, CREATE_EXTENSION]"
  by (simp add: w_ext_def createExtensions_snd sql_snd sent_append sent_w_begin)

lemma sent_w_users:
  "\<exists>hs k. length hs = length (users P) \<and> k \<le> length (users P)
     \<and> sent (calls (w_users E P w)) =
         sent (calls w) @ [BEGIN, CREATE_EXTENSION] @ take (Suc k) (users_part E P hs)
     \<and> (\<not> isl (fst (seedUsers E P (w_ext E w))) \<longrightarrow> k = length (users P))"
  using seedUsers_sent [of P E "w_ext E w"] by (simp add: w_users_def sent_w_ext)

lemma sent_w_customers:
  "sent (calls (w_customers E P w)) = sent (calls (w_users E P w)) @
     (if isl (fst (seedCustomers E P (w_users E P w)))
      then [CREATE_TABLE_customers] else customers_part P)"
  by (simp add: w_customers_def seedCustomers_shape ddl_rows_sent customers_part_def)

lemma sent_w_invoices:
  "sent (calls (w_invoices E P w)) = sent (calls (w_customers E P w)) @
     (if isl (fst (seedInvoices E P (w_customers E P w)))
      then [CREATE_TABLE_invoices] else invoices_part P)"
  by (simp add: w_invoices_def seedInvoices_shape ddl_rows_sent invoices_part_def)

lemma sent_w_revenue:
  "sent (calls (w_revenue E P w)) = sent (calls (w_invoices E P w)) @
     (if isl (fst (seedRevenue E P (w_invoices E P w)))
      then [CREATE_TABLE_revenue] else revenue_part P)"
  by (simp add: w_revenue_def seedRevenue_shape ddl_rows_sent revenue_part_def)

lemma sent_w_commit: "sent (calls (w_commit E P w)) = sent (calls (w_revenue E P w)) @ [COMMIT]"
  by (simp add: w_commit_def sql_snd sent_append)

lemma length_users_part:
  "length hs = length (users P) \<Longrightarrow> length (users_part E P hs) = Suc (length (users P))"
  by (simp add: users_part_def length_settled)

lemma take_prefix: "take (length xs) (xs @ ys) = xs"
  by simp

text \<open>
  The statements of an invocation: the plan in full when the try block comes to its end,
  and else the plan up to the statement or hash that failed, followed by
  \<^verbatim>\<open>ROLLBACK\<close>.
\<close>

lemma seed_sent:
  "\<exists>hs n. length hs = length (users P)
     \<and> sent (calls (snd (GET_seed E P w))) = sent (calls w) @
         (if fst (GET_seed E P w) = Inr (Response_new ''Database seeded successfully'' None [])
          then plan E P hs else take n (plan E P hs) @ [ROLLBACK])"
proof -
  from sent_w_users [of P E w] obtain hs k where hs: "length hs = length (users P)"
    and k: "k \<le> length (users P)"
    and u: "sent (calls (w_users E P w)) =
         sent (calls w) @ [BEGIN, CREATE_EXTENSION] @ take (Suc k) (users_part E P hs)"
    and full: "\<not> isl (fst (seedUsers E P (w_ext E w))) \<longrightarrow> k = length (users P)"
    by blast
  have lu: "length (users_part E P hs) = Suc (length (users P))"
    using hs by (rule length_users_part)
  let ?seeded = "fst (GET_seed E P w) = Inr (Response_new ''Database seeded successfully'' None [])"
  have failing: "\<exists>n. sent (calls (snd (GET_seed E P w))) = sent (calls w) @
         (if ?seeded then plan E P hs else take n (plan E P hs) @ [ROLLBACK])"
    if t: "seed_try E P w = (Inl e, w1)" and p: "sent (calls w1) = sent (calls w) @ pre"
      and pl: "plan E P hs = pre @ post" for e w1 pre post
  proof -
    have "sent (calls (snd (GET_seed E P w))) = sent (calls w) @ pre @ [ROLLBACK]"
      using GET_seed_failed_calls [OF t] p by (simp add: sent_append)
    moreover have "pre = take (length pre) (plan E P hs)"
      by (simp add: pl)
    ultimately show ?thesis
      using GET_seed_failed_not_seeded [OF t] by (intro exI [of _ "length pre"]) simp
  qed
  have "\<exists>n. sent (calls (snd (GET_seed E P w))) = sent (calls w) @
         (if ?seeded then plan E P hs else take n (plan E P hs) @ [ROLLBACK])"
  proof (cases rule: seed_try_cases [where E = E and w = w and P = P])
    case (at_begin e)
    show ?thesis
      by (rule failing [OF at_begin(2), of "[BEGIN]"]) (simp_all add: sent_w_begin plan_def)
  next
    case (at_ext e)
    show ?thesis
      by (rule failing [OF at_ext(3), of "[BEGIN, CREATE_EXTENSION]"])
         (simp_all add: sent_w_ext plan_def)
  next
    case (at_users e)
    have "take (Suc k) (users_part E P hs) @ drop (Suc k) (users_part E P hs) = users_part E P hs"
      by simp
    then have "plan E P hs = ([BEGIN, CREATE_EXTENSION] @ take (Suc k) (users_part E P hs))
        @ (drop (Suc k) (users_part E P hs) @ customers_part P @ invoices_part P @ revenue_part P
            @ [COMMIT])"
      unfolding plan_def by (metis append.assoc)
    then show ?thesis
      by (rule failing [OF at_users(4) u])
  next
    case (at_customers e)
    then have "sent (calls (w_customers E P w)) =
        sent (calls w) @ [BEGIN, CREATE_EXTENSION] @ users_part E P hs @ [CREATE_TABLE_customers]"
      using u full lu by (simp add: sent_w_customers)
    then show ?thesis
      by (rule failing [OF at_customers(5)]) (simp add: plan_def customers_part_def)
  next
    case (at_invoices e)
    then have "sent (calls (w_invoices E P w)) =
        sent (calls w) @ [BEGIN, CREATE_EXTENSION] @ users_part E P hs @ customers_part P
          @ [CREATE_TABLE_invoices]"
      using u full lu by (simp add: sent_w_customers sent_w_invoices)
    then show ?thesis
      by (rule failing [OF at_invoices(6)]) (simp add: plan_def invoices_part_def)
  next
    case (at_revenue e)
    then have "sent (calls (w_revenue E P w)) =
        sent (calls w) @ [BEGIN, CREATE_EXTENSION] @ users_part E P hs @ customers_part P
          @ invoices_part P @ [CREATE_TABLE_revenue]"
      using u full lu by (simp add: sent_w_customers sent_w_invoices sent_w_revenue)
    then show ?thesis
      by (rule failing [OF at_revenue(7)]) (simp add: plan_def revenue_part_def)
  next
    case (at_commit e)
    then have "sent (calls (w_commit E P w)) =
        sent (calls w) @ [BEGIN, CREATE_EXTENSION] @ users_part E P hs @ customers_part P
          @ invoices_part P @ revenue_part P @ [COMMIT]"
      using u full lu
      by (simp add: sent_w_customers sent_w_invoices sent_w_revenue sent_w_commit)
    then show ?thesis
      by (rule failing [OF at_commit(8), where post = "[]"]) (simp add: plan_def)
  next
    case seeded
    then have "sent (calls (w_commit E P w)) = sent (calls w) @ plan E P hs"
      using u full lu
      by (simp add: sent_w_customers sent_w_invoices sent_w_revenue sent_w_commit plan_def)
    then show ?thesis
      using GET_seed_ok [OF seeded(8)] by simp
  qed
  with hs show ?thesis by blast
qed

section \<open>The callbacks still in flight\<close>

lemma pending_sql: "pending (snd (sql E s w)) = pending w"
  by (simp add: sql_snd)

lemma pending_ddl_rows:
  "pending (snd (ddl_then_rows E ddl (\<lambda>x. try_insert E (st x) (msg x)) xs w)) = pending w"
proof (cases "fst (client_sql E ddl (ext w))")
  case (Inl e)
  then show ?thesis by (simp add: ddl_rejected sql_snd)
next
  case (Inr q)
  from ddl_rows_accepted [OF Inr, of xs st msg] show ?thesis by blast
qed

lemma pending_stages:
  "pending (w_begin E w) = pending w"
  "pending (w_ext E w) = pending w"
  "pending (w_customers E P w) = pending (w_users E P w)"
  "pending (w_invoices E P w) = pending (w_users E P w)"
  "pending (w_revenue E P w) = pending (w_users E P w)"
  "pending (w_commit E P w) = pending (w_users E P w)"
  by (simp_all add: stage_defs createExtensions_snd pending_sql pending_ddl_rows
      seedCustomers_shape seedInvoices_shape seedRevenue_shape)

lemma pending_w_users:
  "\<exists>left. pending (w_users E P w) = pending w @ left
     \<and> (\<forall>(u, r) \<in> set left. u \<in> set (users P)
           \<and> (\<exists>y. r = fst (bcrypt_hash E (u_password u) 10 y)))
     \<and> (\<not> isl (fst (seedUsers E P (w_ext E w))) \<longrightarrow> left = [])"
  using seedUsers_pending [of E P "w_ext E w"] by (simp add: w_users_def pending_stages)

lemma pending_GET_seed_failed:
  "seed_try E P w = (Inl e, w1) \<Longrightarrow> pending (snd (GET_seed E P w)) = pending w1"
  by (simp add: GET_seed_failed sql_snd console_error_def split: sum.split)

text \<open>
  The callbacks in flight after an invocation are those that were in flight before and
  callbacks of the users step of this invocation.
\<close>

lemma GET_seed_pending:
  "\<exists>left. pending (snd (GET_seed E P w)) = pending w @ left
     \<and> (\<forall>(u, r) \<in> set left. u \<in> set (users P)
           \<and> (\<exists>y. r = fst (bcrypt_hash E (u_password u) 10 y)))"
proof -
  have users: "pending (snd (GET_seed E P w)) = pending (w_users E P w) \<Longrightarrow> ?thesis"
    using pending_w_users [of E P w] by auto
  have none: "pending (snd (GET_seed E P w)) = pending w \<Longrightarrow> ?thesis"
    by (intro exI [of _ "[]"]) simp
  show ?thesis
  proof (cases rule: seed_try_cases [where E = E and w = w and P = P])
    case (at_begin e)
    then show ?thesis by (intro none) (simp add: pending_GET_seed_failed pending_stages)
  next
    case (at_ext e)
    then show ?thesis by (intro none) (simp add: pending_GET_seed_failed pending_stages)
  next
    case (at_users e)
    then show ?thesis by (intro users) (simp add: pending_GET_seed_failed)
  next
    case (at_customers e)
    then show ?thesis by (intro users) (simp add: pending_GET_seed_failed pending_stages)
  next
    case (at_invoices e)
    then show ?thesis by (intro users) (simp add: pending_GET_seed_failed pending_stages)
  next
    case (at_revenue e)
    then show ?thesis by (intro users) (simp add: pending_GET_seed_failed pending_stages)
  next
    case (at_commit e)
    then show ?thesis by (intro users) (simp add: pending_GET_seed_failed pending_stages)
  next
    case seeded
    then show ?thesis by (intro users) (simp add: GET_seed_ok pending_stages)
  qed
qed

text \<open>
  The barrier of the users step: once the statement that creates the customers table is
  among the statements of an invocation, no callback of its users step is in flight.
\<close>

lemma customers_after_users_settled:
  assumes "CREATE_TABLE_customers
      \<in> set (drop (length (sent (calls w))) (sent (calls (snd (GET_seed E P w)))))"
  shows "pending (snd (GET_seed E P w)) = pending w"
proof -
  have past: "pending (w_users E P w) = pending w"
    if "\<not> isl (fst (seedUsers E P (w_ext E w)))"
    using pending_w_users [of E P w] that by auto
  show ?thesis
  proof (cases rule: seed_try_cases [where E = E and w = w and P = P])
    case (at_begin e)
    from GET_seed_failed_calls [OF at_begin(2)]
    have "sent (calls (snd (GET_seed E P w))) = sent (calls w) @ [BEGIN, ROLLBACK]"
      by (simp add: sent_append sent_w_begin)
    with assms show ?thesis by simp
  next
    case (at_ext e)
    from GET_seed_failed_calls [OF at_ext(3)]
    have "sent (calls (snd (GET_seed E P w))) = sent (calls w) @ [BEGIN, CREATE_EXTENSION, ROLLBACK]"
      by (simp add: sent_append sent_w_ext)
    with assms show ?thesis by simp
  next
    case (at_users e)
    from sent_w_users [of P E w] obtain hs k where
      "sent (calls (w_users E P w)) =
         sent (calls w) @ [BEGIN, CREATE_EXTENSION] @ take (Suc k) (users_part E P hs)"
      by blast
    with GET_seed_failed_calls [OF at_users(4)]
    have "sent (calls (snd (GET_seed E P w))) =
        sent (calls w) @ [BEGIN, CREATE_EXTENSION] @ take (Suc k) (users_part E P hs) @ [ROLLBACK]"
      by (simp add: sent_append)
    with assms have "CREATE_TABLE_customers \<in> set (take (Suc k) (users_part E P hs))"
      by simp
    then have "CREATE_TABLE_customers \<in> set (users_part E P hs)"
      by (rule in_set_takeD)
    then show ?thesis
      by (auto simp: users_part_def user_stmt_def)
  next
    case (at_customers e)
    then show ?thesis by (simp add: pending_GET_seed_failed pending_stages past)
  next
    case (at_invoices e)
    then show ?thesis by (simp add: pending_GET_seed_failed pending_stages past)
  next
    case (at_revenue e)
    then show ?thesis by (simp add: pending_GET_seed_failed pending_stages past)
  next
    case (at_commit e)
    then show ?thesis by (simp add: pending_GET_seed_failed pending_stages past)
  next
    case seeded
    then show ?thesis by (simp add: GET_seed_ok pending_stages past)
  qed
qed

lemma settle_pending_inv:
  assumes "\<And>u h x. (u, Inr h) \<in> set p \<Longrightarrow> I x \<Longrightarrow> I (snd (client_sql E (user_stmt (u, h)) x))"
    and "I (ext w)"
  shows "I (ext (settle_pending E p w))"
  using assms
proof (induction E p w rule: settle_pending.induct)
  case (1 E w)
  then show ?case by simp
next
  case (2 E u e rest w)
  then show ?case by simp
next
  case (3 E u h rest w)
  have "I (ext (snd (insert_user E u h w)))"
    using "3.prems" by (simp add: insert_user_snd)
  then have "I (ext (settle_pending E rest (snd (insert_user E u h w))))"
    using "3.IH" "3.prems"(1) by simp
  then show ?case by simp
qed

section \<open>The order of the steps\<close>

lemma take_through:
  assumes "x \<notin> set as" and "x \<in> set (take n (as @ x # bs))"
  shows "take n (as @ x # bs) = as @ x # take (n - Suc (length as)) bs"
proof (cases "n \<le> length as")
  case True
  then have "take n (as @ x # bs) = take n as" by simp
  with assms show ?thesis by (auto dest: in_set_takeD)
next
  case False
  then obtain m where "n = Suc (length as + m)"
    by (metis add_Suc_right less_iff_Suc_add not_less)
  then show ?thesis by simp
qed

text \<open>
  A statement \<open>x\<close> of the plan that is among the statements sent has everything that the
  plan puts before it right before it.
\<close>

lemma sent_through:
  assumes pl: "pl = as @ x # bs" and new: "x \<notin> set as" and x: "x \<noteq> ROLLBACK"
    and X: "X = (if seeded then pl else take n pl @ [ROLLBACK])" and mem: "x \<in> set X"
  shows "\<exists>post. X = as @ x # post"
proof (cases seeded)
  case True
  with X pl show ?thesis by simp
next
  case False
  with X mem x have "x \<in> set (take n (as @ x # bs))"
    by (simp add: pl)
  from take_through [OF new this] have "take n pl = as @ x # take (n - Suc (length as)) bs"
    by (simp only: pl)
  with X False show ?thesis by simp
qed

lemma plan_steps:
  "plan E P hs = ([BEGIN, CREATE_EXTENSION] @ users_part E P hs)
     @ CREATE_TABLE_customers # (map customer_stmt (customers P) @ invoices_part P
          @ revenue_part P @ [COMMIT])"
  "plan E P hs = ([BEGIN, CREATE_EXTENSION] @ users_part E P hs @ customers_part P)
     @ CREATE_TABLE_invoices # (map invoice_stmt (invoices P) @ revenue_part P @ [COMMIT])"
  "plan E P hs = ([BEGIN, CREATE_EXTENSION] @ users_part E P hs @ customers_part P
       @ invoices_part P)
     @ CREATE_TABLE_revenue # (map revenue_stmt (revenue P) @ [COMMIT])"
  "plan E P hs = ([BEGIN, CREATE_EXTENSION] @ users_part E P hs @ customers_part P
       @ invoices_part P @ revenue_part P) @ COMMIT # []"
  by (simp_all add: plan_def customers_part_def invoices_part_def revenue_part_def)

lemma not_before:
  "CREATE_TABLE_customers \<notin> set ([BEGIN, CREATE_EXTENSION] @ users_part E P hs)"
  "CREATE_TABLE_invoices \<notin> set ([BEGIN, CREATE_EXTENSION] @ users_part E P hs @ customers_part P)"
  "CREATE_TABLE_revenue \<notin> set ([BEGIN, CREATE_EXTENSION] @ users_part E P hs @ customers_part P
       @ invoices_part P)"
  "COMMIT \<notin> set ([BEGIN, CREATE_EXTENSION] @ users_part E P hs @ customers_part P
       @ invoices_part P @ revenue_part P)"
  by (auto simp: users_part_def customers_part_def invoices_part_def revenue_part_def
      user_stmt_def customer_stmt_def invoice_stmt_def revenue_stmt_def)

text \<open>
  C7. The statements \<open>X\<close> of every seed invocation are, in this order: \<^verbatim>\<open>BEGIN\<close>, the
  extension, the users table and the users' inserts (these in the order in which the hashes
  settle), the customers table and the customers' inserts, the invoices table and the
  invoices' inserts, the revenue table and the revenue inserts, \<^verbatim>\<open>COMMIT\<close>, when the
  handler answers that the database was seeded; and else a beginning of this sequence
  followed by \<^verbatim>\<open>ROLLBACK\<close>. So a step is started only when the steps before it are
  complete: whenever the statement creating the customers table is sent, the users
  table and the insert of every user come right before it and no callback of the users step
  is in flight any more; whenever the statement creating the invoices table is sent, the
  whole customers step (its table and every insert) comes right before it; and likewise
  for the revenue table and for \<^verbatim>\<open>COMMIT\<close>.
\<close>

theorem seed_steps_in_sequence:
  "\<exists>hs n X. length hs = length (users P)
     \<and> X = (if fst (GET_seed E P w) = Inr (Response_new ''Database seeded successfully'' None [])
            then plan E P hs else take n (plan E P hs) @ [ROLLBACK])
     \<and> sent (calls (snd (GET_seed E P w))) = sent (calls w) @ X
     \<and> (CREATE_TABLE_customers \<in> set X \<longrightarrow>
          (\<exists>post. X = [BEGIN, CREATE_EXTENSION] @ users_part E P hs
                     @ CREATE_TABLE_customers # post)
          \<and> pending (snd (GET_seed E P w)) = pending w)
     \<and> (CREATE_TABLE_invoices \<in> set X \<longrightarrow>
          (\<exists>post. X = [BEGIN, CREATE_EXTENSION] @ users_part E P hs @ customers_part P
                     @ CREATE_TABLE_invoices # post))
     \<and> (CREATE_TABLE_revenue \<in> set X \<longrightarrow>
          (\<exists>post. X = [BEGIN, CREATE_EXTENSION] @ users_part E P hs @ customers_part P
                     @ invoices_part P @ CREATE_TABLE_revenue # post))
     \<and> (COMMIT \<in> set X \<longrightarrow>
          (\<exists>post. X = [BEGIN, CREATE_EXTENSION] @ users_part E P hs @ customers_part P
                     @ invoices_part P @ revenue_part P @ COMMIT # post))"
proof -
  let ?seeded = "fst (GET_seed E P w) = Inr (Response_new ''Database seeded successfully'' None [])"
  from seed_sent [of P E w] obtain hs n where hs: "length hs = length (users P)"
    and s: "sent (calls (snd (GET_seed E P w))) = sent (calls w) @
         (if ?seeded then plan E P hs else take n (plan E P hs) @ [ROLLBACK])"
    by blast
  define X where "X = (if ?seeded then plan E P hs else take n (plan E P hs) @ [ROLLBACK])"
  have sX: "sent (calls (snd (GET_seed E P w))) = sent (calls w) @ X"
    using s by (simp only: X_def)
  have 1: "\<exists>post. X = [BEGIN, CREATE_EXTENSION] @ users_part E P hs
                     @ CREATE_TABLE_customers # post"
    if "CREATE_TABLE_customers \<in> set X"
    using sent_through [OF plan_steps(1) not_before(1) _ X_def that] by simp
  have 2: "pending (snd (GET_seed E P w)) = pending w" if "CREATE_TABLE_customers \<in> set X"
    by (rule customers_after_users_settled) (simp add: sX that)
  have 3: "\<exists>post. X = [BEGIN, CREATE_EXTENSION] @ users_part E P hs @ customers_part P
                     @ CREATE_TABLE_invoices # post"
    if "CREATE_TABLE_invoices \<in> set X"
    using sent_through [OF plan_steps(2) not_before(2) _ X_def that] by simp
  have 4: "\<exists>post. X = [BEGIN, CREATE_EXTENSION] @ users_part E P hs @ customers_part P
                     @ invoices_part P @ CREATE_TABLE_revenue # post"
    if "CREATE_TABLE_revenue \<in> set X"
    using sent_through [OF plan_steps(3) not_before(3) _ X_def that] by simp
  have 5: "\<exists>post. X = [BEGIN, CREATE_EXTENSION] @ users_part E P hs @ customers_part P
                     @ invoices_part P @ revenue_part P @ COMMIT # post"
    if "COMMIT \<in> set X"
    using sent_through [OF plan_steps(4) not_before(4) _ X_def that] by simp
  show ?thesis
    using hs X_def sX 1 2 3 4 5 by (intro exI [of _ hs] exI [of _ n] exI [of _ X]) blast
qed

text \<open>
  An invocation with two users on an empty database, in which the hash of the second user
  settles first: the insert of the second user is sent before that of the first, and the
  customers step starts when both are done.
\<close>

lemma late_first_sent:
  "sent (calls (snd (GET_seed late_first two_users (start fresh_pg)))) =
     [BEGIN, CREATE_EXTENSION, CREATE_TABLE_users,
      INSERT_users ''410544b2-4001-4271-9855-fec4b6a6442a'' ''User'' ''user@nextmail.com''
        ''$2b$10$123456'',
      INSERT_users ''13d07535-c59e-4157-a011-f8d2ef4e0cbb'' ''Nobody'' ''nobody@nextmail.com''
        ''$2b$10$'',
      CREATE_TABLE_customers,
      INSERT_customers ''d6e15727-9fe1-4961-8c5b-ea44a9bd81aa'' ''Acme'' ''acme@example.com''
        ''/acme.png'',
      CREATE_TABLE_invoices,
      INSERT_invoices ''d6e15727-9fe1-4961-8c5b-ea44a9bd81aa'' 666 ''paid'' ''2022-12-06'',
      INSERT_invoices ''d6e15727-9fe1-4961-8c5b-ea44a9bd81aa'' 20348 ''pending'' ''2022-11-14'',
      CREATE_TABLE_revenue,
      INSERT_revenue ''Jan'' 2000,
      COMMIT]"
  by code_simp

theorem seed_steps_in_sequence_witness:
  "CREATE_TABLE_customers \<in> set (sent (calls (snd (GET_seed late_first two_users (start fresh_pg)))))
   \<and> CREATE_TABLE_invoices \<in> set (sent (calls (snd (GET_seed late_first two_users (start fresh_pg)))))
   \<and> CREATE_TABLE_revenue \<in> set (sent (calls (snd (GET_seed late_first two_users (start fresh_pg)))))
   \<and> COMMIT \<in> set (sent (calls (snd (GET_seed late_first two_users (start fresh_pg)))))
   \<and> (\<exists>hs post. sent (calls (snd (GET_seed late_first two_users (start fresh_pg)))) =
         [BEGIN, CREATE_EXTENSION] @ users_part late_first two_users hs
           @ CREATE_TABLE_customers # post)
   \<and> (\<exists>hs post. sent (calls (snd (GET_seed late_first two_users (start fresh_pg)))) =
         [BEGIN, CREATE_EXTENSION] @ users_part late_first two_users hs
           @ customers_part two_users @ CREATE_TABLE_invoices # post)
   \<and> pending (snd (GET_seed late_first two_users (start fresh_pg))) = []"
proof -
  let ?G = "GET_seed late_first two_users (start fresh_pg)"
  have m: "CREATE_TABLE_customers \<in> set (sent (calls (snd ?G)))"
    "CREATE_TABLE_invoices \<in> set (sent (calls (snd ?G)))"
    "CREATE_TABLE_revenue \<in> set (sent (calls (snd ?G)))"
    "COMMIT \<in> set (sent (calls (snd ?G)))"
    by (simp_all add: late_first_sent)
  have c: "sent (calls (start fresh_pg)) = []" "pending (start fresh_pg) = []"
    by (simp_all add: start_def)
  from seed_steps_in_sequence [of two_users late_first "start fresh_pg"]
  obtain hs X where x: "sent (calls (snd ?G)) = X"
    and 1: "CREATE_TABLE_customers \<in> set X \<longrightarrow>
          (\<exists>post. X = [BEGIN, CREATE_EXTENSION] @ users_part late_first two_users hs
                     @ CREATE_TABLE_customers # post)
          \<and> pending (snd ?G) = []"
    and 2: "CREATE_TABLE_invoices \<in> set X \<longrightarrow>
          (\<exists>post. X = [BEGIN, CREATE_EXTENSION] @ users_part late_first two_users hs
                     @ customers_part two_users @ CREATE_TABLE_invoices # post)"
    unfolding c append_Nil by blast
  from m 1 2 show ?thesis
    unfolding x by blast
qed

section \<open>Row failures\<close>




section \<open>A failing hash\<close>

lemma hf_w_begin: "filter hash_failed (calls (w_begin E w)) = filter hash_failed (calls w)"
  by (simp add: w_begin_def sql_snd)

lemma hf_w_ext: "filter hash_failed (calls (w_ext E w)) = filter hash_failed (calls w)"
  by (simp add: w_ext_def createExtensions_snd sql_snd hf_w_begin)

lemma hf_w_users:
  "\<not> isl (fst (seedUsers E P (w_ext E w))) \<Longrightarrow>
   filter hash_failed (calls (w_users E P w)) = filter hash_failed (calls w)"
  by (simp add: w_users_def seedUsers_hash_failed hf_w_ext)

lemma hf_w_customers:
  "filter hash_failed (calls (w_customers E P w)) = filter hash_failed (calls (w_users E P w))"
  by (simp add: w_customers_def seedCustomers_shape ddl_rows_hash_failed)

lemma hf_w_invoices:
  "filter hash_failed (calls (w_invoices E P w)) = filter hash_failed (calls (w_users E P w))"
  by (simp add: w_invoices_def seedInvoices_shape ddl_rows_hash_failed hf_w_customers)

lemma hf_w_revenue:
  "filter hash_failed (calls (w_revenue E P w)) = filter hash_failed (calls (w_users E P w))"
  by (simp add: w_revenue_def seedRevenue_shape ddl_rows_hash_failed hf_w_invoices)

lemma hf_w_commit:
  "filter hash_failed (calls (w_commit E P w)) = filter hash_failed (calls (w_users E P w))"
  by (simp add: w_commit_def sql_snd hf_w_revenue)

lemma hf_GET_seed_failed:
  "seed_try E P w = (Inl e, w1) \<Longrightarrow>
   filter hash_failed (calls (snd (GET_seed E P w))) = filter hash_failed (calls w1)"
  by (simp add: GET_seed_failed_calls)

text \<open>A hash fails during an invocation only in the users step, and then the step throws.\<close>

lemma hash_failure_stops_at_users:
  assumes "filter hash_failed (calls (snd (GET_seed E P w))) \<noteq> filter hash_failed (calls w)"
  obtains e where "\<not> isl (fst (sql E BEGIN w))" "\<not> isl (fst (createExtensions E (w_begin E w)))"
      "fst (seedUsers E P (w_ext E w)) = Inl e" "seed_try E P w = (Inl e, w_users E P w)"
proof (cases rule: seed_try_cases [where E = E and w = w and P = P])
  case (at_begin e)
  with assms show ?thesis by (simp add: hf_GET_seed_failed hf_w_begin)
next
  case (at_ext e)
  with assms show ?thesis by (simp add: hf_GET_seed_failed hf_w_ext)
next
  case (at_users e)
  then show ?thesis using that by blast
next
  case (at_customers e)
  with assms show ?thesis by (simp add: hf_GET_seed_failed hf_w_customers hf_w_users)
next
  case (at_invoices e)
  with assms show ?thesis by (simp add: hf_GET_seed_failed hf_w_invoices hf_w_users)
next
  case (at_revenue e)
  with assms show ?thesis by (simp add: hf_GET_seed_failed hf_w_revenue hf_w_users)
next
  case (at_commit e)
  with assms show ?thesis by (simp add: hf_GET_seed_failed hf_w_commit hf_w_users)
next
  case seeded
  with assms show ?thesis by (simp add: GET_seed_ok hf_w_commit hf_w_users)
qed

lemma hash_failure_after_table:
  assumes "filter hash_failed (calls (snd (seedUsers E P w))) \<noteq> filter hash_failed (calls w)"
  shows "\<not> isl (fst (client_sql E CREATE_TABLE_users (ext w)))"
proof
  assume "isl (fst (client_sql E CREATE_TABLE_users (ext w)))"
  then obtain e where "fst (client_sql E CREATE_TABLE_users (ext w)) = Inl e"
    by (cases "fst (client_sql E CREATE_TABLE_users (ext w))") simp_all
  with assms show False
    by (simp add: seedUsers_rejected sql_snd)
qed

text \<open>
  C10, as amended. When a call to the hash is answered with an error during a seed invocation,
  the users step throws the error of the first hash to fail (the hash is awaited outside the
  row's \<^verbatim>\<open>try\<close>). The statements of the invocation are then \<^verbatim>\<open>BEGIN\<close>, the extension, the
  users table, the inserts of the users whose hashes settled before that one, and
  \<^verbatim>\<open>ROLLBACK\<close>: no statement of a later step and no \<^verbatim>\<open>COMMIT\<close>. The callbacks of the users
  whose hashes settle later are left in flight. The handler answers with status 500 when
  \<^verbatim>\<open>ROLLBACK\<close> is accepted; when it is rejected, the handler rejects with that error. The
  users step throws only when its table statement or a hash fails, never for a rejected
  insert.
\<close>

theorem hash_failure_aborts_seed:
  assumes "hash_failed c" and "c \<in> set (calls (snd (GET_seed E P w)))" and "c \<notin> set (calls w)"
  shows "(\<exists>e u rest. fst (seedUsers E P (w_ext E w)) = Inl e
           \<and> dropWhile (\<lambda>uh. \<not> isl (snd uh))
                 (settled E (zip (users P) (hashes E P (w_ext E w)))) = (u, Inl e) # rest)
     \<and> sent (calls (snd (GET_seed E P w))) =
           sent (calls w) @ [BEGIN, CREATE_EXTENSION, CREATE_TABLE_users]
             @ map user_stmt (hashed_first (settled E (zip (users P) (hashes E P (w_ext E w)))))
             @ [ROLLBACK]
     \<and> pending (snd (GET_seed E P w)) =
           pending w @ left_in_flight (settled E (zip (users P) (hashes E P (w_ext E w))))
     \<and> fst (GET_seed E P w) =
         (case fst (client_sql E ROLLBACK (ext (w_users E P w))) of
            Inl e2 \<Rightarrow> Inl e2
          | Inr q \<Rightarrow> Inr \<lparr>status = 500,
                         headers = [(''content-type'', ''text/plain;charset=UTF-8'')],
                         body = ''Error seeding database''\<rparr>)
     \<and> (isl (fst (seedUsers E P w2)) \<longleftrightarrow>
          isl (fst (client_sql E CREATE_TABLE_users (ext w2)))
          \<or> (\<exists>r \<in> set (hashes E P w2). isl r))"
proof -
  let ?uhs = "settled E (zip (users P) (hashes E P (w_ext E w)))"
  from assms have "c \<in> set (filter hash_failed (calls (snd (GET_seed E P w))))"
    and "c \<notin> set (filter hash_failed (calls w))"
    by simp_all
  then have ne: "filter hash_failed (calls (snd (GET_seed E P w))) \<noteq> filter hash_failed (calls w)"
    by metis
  then obtain e where u: "fst (seedUsers E P (w_ext E w)) = Inl e"
    and t: "seed_try E P w = (Inl e, w_users E P w)"
    by (rule hash_failure_stops_at_users)
  have "filter hash_failed (calls (snd (seedUsers E P (w_ext E w))))
      \<noteq> filter hash_failed (calls (w_ext E w))"
    using ne by (simp add: hf_GET_seed_failed [OF t] hf_w_ext w_users_def)
  then have "\<not> isl (fst (client_sql E CREATE_TABLE_users (ext (w_ext E w))))"
    by (rule hash_failure_after_table)
  then obtain q where ddl: "fst (client_sql E CREATE_TABLE_users (ext (w_ext E w))) = Inr q"
    by (cases "fst (client_sql E CREATE_TABLE_users (ext (w_ext E w)))") simp_all
  from seedUsers_run [OF ddl, of P] u
  have first: "\<exists>u rest. dropWhile (\<lambda>uh. \<not> isl (snd uh)) ?uhs = (u, Inl e) # rest"
    and p: "pending (snd (seedUsers E P (w_ext E w))) = pending (w_ext E w) @ left_in_flight ?uhs"
    by blast+
  have "sent (calls (w_users E P w)) =
      sent (calls w) @ [BEGIN, CREATE_EXTENSION, CREATE_TABLE_users]
        @ map user_stmt (hashed_first ?uhs)"
    using ddl by (simp add: w_users_def seedUsers_sent_exact sent_w_ext)
  then have s: "sent (calls (snd (GET_seed E P w))) =
       sent (calls w) @ [BEGIN, CREATE_EXTENSION, CREATE_TABLE_users]
         @ map user_stmt (hashed_first ?uhs) @ [ROLLBACK]"
    by (simp add: GET_seed_failed_calls [OF t] sent_append)
  have pe: "pending (snd (GET_seed E P w)) = pending w @ left_in_flight ?uhs"
    using p by (simp add: pending_GET_seed_failed [OF t] w_users_def pending_stages)
  have r: "fst (GET_seed E P w) =
         (case fst (client_sql E ROLLBACK (ext (w_users E P w))) of
            Inl e2 \<Rightarrow> Inl e2
          | Inr q \<Rightarrow> Inr \<lparr>status = 500,
                         headers = [(''content-type'', ''text/plain;charset=UTF-8'')],
                         body = ''Error seeding database''\<rparr>)"
    by (simp add: GET_seed_failed [OF t] Response_new_plain split: sum.split)
  from u first s pe r seedUsers_isl [of E P w2] show ?thesis
    by (simp only: simp_thms) blast
qed

text \<open>
  An invocation with two users on an empty database, in which the hash of the first user
  fails and that of the second settles before it: the insert of the second user is sent
  before \<^verbatim>\<open>ROLLBACK\<close>, nothing is left in flight, and the answer is 500.
\<close>

theorem hash_failure_aborts_seed_witness:
  "hash_failed (Hash [] 10 (Inl (Error ''data and salt arguments required'')))
   \<and> Hash [] 10 (Inl (Error ''data and salt arguments required''))
       \<in> set (calls (snd (GET_seed (pg_env (\<lambda>s. False) True picky_hash [1, 0]) two_users
                             (start fresh_pg))))
   \<and> Hash [] 10 (Inl (Error ''data and salt arguments required''))
       \<notin> set (calls (start fresh_pg))
   \<and> isl (fst (seedUsers (pg_env (\<lambda>s. False) True picky_hash [1, 0]) two_users
        (w_ext (pg_env (\<lambda>s. False) True picky_hash [1, 0]) (start fresh_pg))))
   \<and> sent (calls (snd (GET_seed (pg_env (\<lambda>s. False) True picky_hash [1, 0]) two_users
                             (start fresh_pg)))) =
        [BEGIN, CREATE_EXTENSION, CREATE_TABLE_users,
         INSERT_users ''410544b2-4001-4271-9855-fec4b6a6442a'' ''User'' ''user@nextmail.com''
           ''$2b$10$123456'',
         ROLLBACK]
   \<and> pending (snd (GET_seed (pg_env (\<lambda>s. False) True picky_hash [1, 0]) two_users
                    (start fresh_pg))) = []
   \<and> fst (GET_seed (pg_env (\<lambda>s. False) True picky_hash [1, 0]) two_users (start fresh_pg)) =
        Inr \<lparr>status = 500, headers = [(''content-type'', ''text/plain;charset=UTF-8'')],
             body = ''Error seeding database''\<rparr>"
proof -
  let ?E = "pg_env (\<lambda>s. False) True picky_hash [1, 0]"
  let ?c = "Hash [] 10 (Inl (Error ''data and salt arguments required''))"
  let ?uhs = "settled ?E (zip (users two_users) (hashes ?E two_users (w_ext ?E (start fresh_pg))))"
  have a: "hash_failed ?c" by simp
  have b: "?c \<in> set (calls (snd (GET_seed ?E two_users (start fresh_pg))))"
    by code_simp
  have c: "?c \<notin> set (calls (start fresh_pg))"
    by (simp add: start_def)
  have r: "fst (client_sql ?E ROLLBACK (ext (w_users ?E two_users (start fresh_pg)))) = Inr []"
    by code_simp
  have h: "map user_stmt (hashed_first ?uhs) =
      [INSERT_users ''410544b2-4001-4271-9855-fec4b6a6442a'' ''User'' ''user@nextmail.com''
         ''$2b$10$123456'']"
    by code_simp
  have l: "left_in_flight ?uhs = []"
    by code_simp
  have s: "sent (calls (start fresh_pg)) = []" "pending (start fresh_pg) = []"
    by (simp_all add: start_def)
  from hash_failure_aborts_seed [OF a b c, of "start fresh_pg"]
  have "(\<exists>e. fst (seedUsers ?E two_users (w_ext ?E (start fresh_pg))) = Inl e)
     \<and> sent (calls (snd (GET_seed ?E two_users (start fresh_pg)))) =
        [BEGIN, CREATE_EXTENSION, CREATE_TABLE_users,
         INSERT_users ''410544b2-4001-4271-9855-fec4b6a6442a'' ''User'' ''user@nextmail.com''
           ''$2b$10$123456'',
         ROLLBACK]
     \<and> pending (snd (GET_seed ?E two_users (start fresh_pg))) = []
     \<and> fst (GET_seed ?E two_users (start fresh_pg)) =
        Inr \<lparr>status = 500, headers = [(''content-type'', ''text/plain;charset=UTF-8'')],
             body = ''Error seeding database''\<rparr>"
    unfolding h l r s by auto
  then show ?thesis
    using a b c by auto
qed

text \<open>
  C10, as stated, fails in two ways. When the \<^verbatim>\<open>ROLLBACK\<close> of the catch block is rejected
  as well, the handler returns no response at all. And a rejected insert of a user is not
  isolated on a PostgreSQL session: in the example with a second user that has the email of
  the first, every hash is computed, the second insert is rejected and logged, the step
  returns normally, and the invocation still ends in \<^verbatim>\<open>ROLLBACK\<close> and 500, as it does for
  a failed hash.
\<close>

theorem refused_rollback_and_rejected_insert:
  "Hash ''123456'' 10 (Inl (Error ''data and salt arguments required''))
       \<in> set (calls (snd (GET_seed (pg_env refuse_rollback True failing_hash []) demo_data
                             (start fresh_pg))))
   \<and> sent (calls (snd (GET_seed (pg_env refuse_rollback True failing_hash []) demo_data
                             (start fresh_pg))))
       = [BEGIN, CREATE_EXTENSION, CREATE_TABLE_users, ROLLBACK]
   \<and> fst (GET_seed (pg_env refuse_rollback True failing_hash []) demo_data (start fresh_pg))
       = Inl (Error ''statement refused'')
   \<and> filter hash_failed (calls (snd (GET_seed demo_env same_email (start fresh_pg)))) = []
   \<and> Sql (INSERT_users ''13d07535-c59e-4157-a011-f8d2ef4e0cbb'' ''Twin'' ''user@nextmail.com''
            ''$2b$10$abcdef'')
         (Inl (Error ''duplicate key value violates unique constraint users_email_key''))
       \<in> set (calls (snd (GET_seed demo_env same_email (start fresh_pg))))
   \<and> fst (seedUsers demo_env same_email (w_ext demo_env (start fresh_pg))) = Inr [Some [], None]
   \<and> sent (calls (snd (GET_seed demo_env same_email (start fresh_pg)))) =
        [BEGIN, CREATE_EXTENSION, CREATE_TABLE_users,
         INSERT_users ''410544b2-4001-4271-9855-fec4b6a6442a'' ''User'' ''user@nextmail.com''
           ''$2b$10$123456'',
         INSERT_users ''13d07535-c59e-4157-a011-f8d2ef4e0cbb'' ''Twin'' ''user@nextmail.com''
           ''$2b$10$abcdef'',
         CREATE_TABLE_customers, ROLLBACK]
   \<and> fst (GET_seed demo_env same_email (start fresh_pg)) =
        Inr \<lparr>status = 500, headers = [(''content-type'', ''text/plain;charset=UTF-8'')],
             body = ''Error seeding database''\<rparr>"
  by code_simp

text \<open>
  The callbacks that are in flight when \<^verbatim>\<open>Promise.all\<close> rejects go on after the handler has
  rolled back: in this example the hash of the first user fails before that of the second
  settles, and the insert of the second user is sent after \<^verbatim>\<open>ROLLBACK\<close>, outside of any
  transaction block, where it stays.
\<close>

lemma in_flight_insert_follows_rollback:
  "fst (GET_seed (pg_env (\<lambda>s. False) True picky_hash []) two_users (start acme_db)) =
     Inr \<lparr>status = 500, headers = [(''content-type'', ''text/plain;charset=UTF-8'')],
          body = ''Error seeding database''\<rparr>
   \<and> sent (calls (snd (GET_seed (pg_env (\<lambda>s. False) True picky_hash []) two_users (start acme_db))))
       = [BEGIN, CREATE_EXTENSION, CREATE_TABLE_users, ROLLBACK]
   \<and> sent (calls (settle_pending (pg_env (\<lambda>s. False) True picky_hash [])
        (pending (snd (GET_seed (pg_env (\<lambda>s. False) True picky_hash []) two_users (start acme_db))))
        (snd (GET_seed (pg_env (\<lambda>s. False) True picky_hash []) two_users (start acme_db)))))
       = [BEGIN, CREATE_EXTENSION, CREATE_TABLE_users, ROLLBACK,
          INSERT_users ''410544b2-4001-4271-9855-fec4b6a6442a'' ''User'' ''user@nextmail.com''
            ''$2b$10$123456'']
   \<and> users_rows (live (ext (settle_pending (pg_env (\<lambda>s. False) True picky_hash [])
        (pending (snd (GET_seed (pg_env (\<lambda>s. False) True picky_hash []) two_users (start acme_db))))
        (snd (GET_seed (pg_env (\<lambda>s. False) True picky_hash []) two_users (start acme_db))))))
       = [\<lparr>u_id = ''410544b2-4001-4271-9855-fec4b6a6442a'', u_name = ''User'',
            u_email = ''user@nextmail.com'', u_password = ''$2b$10$123456''\<rparr>]"
  by code_simp

section \<open>Transactions on the PostgreSQL session\<close>

lemma pg_env_simps:
  "client_sql (pg_env refuse ok hashf ord) = pg_sql refuse"
  "bcrypt_hash (pg_env refuse ok hashf ord) p c d = (hashf p c, d)"
  "db_connect (pg_env refuse ok hashf ord) d = (if ok then Inr () else Inl (Error ''connection refused''), d)"
  "client_release (pg_env refuse ok hashf ord) d = d"
  by (simp_all add: pg_env_def)

lemma pg_run_snapshot:
  "\<not> opens_or_ends_block s \<Longrightarrow> pg_run s d = Inr (rows, d1) \<Longrightarrow> snapshot d1 = snapshot d"
  by (cases s)
     (auto simp: opens_or_ends_block_def on_live_def split: if_splits option.splits sum.splits)

lemma mark_failed_snapshot: "snapshot (mark_failed d) = snapshot d"
  by (simp add: mark_failed_def)

lemma mark_failed_live: "live (mark_failed d) = live d"
  by (simp add: mark_failed_def)

lemma pg_sql_snapshot:
  assumes "\<not> opens_or_ends_block s"
  shows "snapshot (snd (pg_sql refuse s d)) = snapshot d"
proof (cases "pg_run s d")
  case (Inl e)
  then show ?thesis by (simp add: pg_sql_def mark_failed_snapshot)
next
  case (Inr r)
  then obtain rows d1 where "pg_run s d = Inr (rows, d1)" by (cases r) simp
  with pg_run_snapshot [OF assms this] show ?thesis
    by (simp add: pg_sql_def mark_failed_snapshot)
qed

lemma pg_begin:
  "snapshot (snd (pg_sql refuse BEGIN d)) = Some (committed d)
   \<or> (isl (fst (pg_sql refuse BEGIN d)) \<and> snapshot (snd (pg_sql refuse BEGIN d)) = None
        \<and> live (snd (pg_sql refuse BEGIN d)) = committed d)"
  by (cases "snapshot d") (simp_all add: pg_sql_def mark_failed_def ends_block_def committed_def)

lemma pg_commit_rejected:
  "isl (fst (pg_sql refuse COMMIT d)) \<Longrightarrow> snapshot (snd (pg_sql refuse COMMIT d)) = snapshot d"
  by (simp add: pg_sql_def mark_failed_snapshot ends_block_def split: if_splits)

lemma pg_rollback:
  assumes "\<not> refuse ROLLBACK"
  shows "pg_sql refuse ROLLBACK d = (Inr [], end_block True d)"
  using assms by (simp add: pg_sql_def ends_block_def)

text \<open>No step between \<^verbatim>\<open>BEGIN\<close> and \<^verbatim>\<open>COMMIT\<close> touches the tables saved at \<^verbatim>\<open>BEGIN\<close>.\<close>

lemma not_block_stmts:
  "\<not> opens_or_ends_block CREATE_EXTENSION" "\<not> opens_or_ends_block CREATE_TABLE_users"
  "\<not> opens_or_ends_block CREATE_TABLE_customers" "\<not> opens_or_ends_block CREATE_TABLE_invoices"
  "\<not> opens_or_ends_block CREATE_TABLE_revenue" "\<not> opens_or_ends_block (user_stmt uh)"
  "\<not> opens_or_ends_block (customer_stmt c)" "\<not> opens_or_ends_block (invoice_stmt i)"
  "\<not> opens_or_ends_block (revenue_stmt r)"
  by (simp_all add: opens_or_ends_block_def user_stmt_def customer_stmt_def invoice_stmt_def
      revenue_stmt_def)

lemma snapshot_w_ext:
  "snapshot (ext (w_ext (pg_env refuse ok hashf ord) w))
     = snapshot (ext (w_begin (pg_env refuse ok hashf ord) w))"
  by (simp add: w_ext_def createExtensions_snd sql_snd pg_env_simps pg_sql_snapshot not_block_stmts)

lemma snapshot_w_users:
  "snapshot (ext (w_users (pg_env refuse ok hashf ord) P w))
     = snapshot (ext (w_ext (pg_env refuse ok hashf ord) w))"
  unfolding w_users_def
  by (rule seedUsers_inv [where I = "\<lambda>d. snapshot d = snapshot (ext (w_ext (pg_env refuse ok hashf ord) w))"])
     (simp_all add: pg_env_simps pg_sql_snapshot not_block_stmts)

lemma snapshot_rows:
  assumes "\<not> opens_or_ends_block ddl" and "\<And>x. \<not> opens_or_ends_block (st x)"
  shows "snapshot (ext (snd (ddl_then_rows (pg_env refuse ok hashf ord) ddl
      (\<lambda>x. try_insert (pg_env refuse ok hashf ord) (st x) (msg x)) xs w))) = snapshot (ext w)"
  by (rule ddl_rows_inv [where I = "\<lambda>d. snapshot d = snapshot (ext w)"])
     (auto simp: pg_env_simps pg_sql_snapshot assms)

lemma snapshot_w_customers:
  "snapshot (ext (w_customers (pg_env refuse ok hashf ord) P w))
     = snapshot (ext (w_users (pg_env refuse ok hashf ord) P w))"
  by (simp add: w_customers_def seedCustomers_shape snapshot_rows not_block_stmts)

lemma snapshot_w_invoices:
  "snapshot (ext (w_invoices (pg_env refuse ok hashf ord) P w))
     = snapshot (ext (w_customers (pg_env refuse ok hashf ord) P w))"
  by (simp add: w_invoices_def seedInvoices_shape snapshot_rows not_block_stmts)

lemma snapshot_w_revenue:
  "snapshot (ext (w_revenue (pg_env refuse ok hashf ord) P w))
     = snapshot (ext (w_invoices (pg_env refuse ok hashf ord) P w))"
  by (simp add: w_revenue_def seedRevenue_shape snapshot_rows not_block_stmts)

lemmas snapshot_stages =
  snapshot_w_ext snapshot_w_users snapshot_w_customers snapshot_w_invoices snapshot_w_revenue

lemma seed_try_failed_snapshot:
  assumes t: "seed_try (pg_env refuse ok hashf ord) P w = (Inl e, w1)"
  shows "snapshot (ext w1) = Some (committed (ext w))
     \<or> (snapshot (ext w1) = None \<and> live (ext w1) = committed (ext w))"
proof -
  let ?E = "pg_env refuse ok hashf ord"
  have b: "snapshot (ext (w_begin ?E w)) = Some (committed (ext w))
     \<or> (isl (fst (sql ?E BEGIN w)) \<and> snapshot (ext (w_begin ?E w)) = None
          \<and> live (ext (w_begin ?E w)) = committed (ext w))"
    using pg_begin [of refuse "ext w"]
    by (simp add: w_begin_def sql_snd sql_fst pg_env_simps)
  show ?thesis
  proof (cases rule: seed_try_cases [where E = ?E and w = w and P = P])
    case (at_begin e)
    with t have "w1 = w_begin ?E w" by simp
    with at_begin b show ?thesis by simp
  next
    case (at_ext e)
    with t have "w1 = w_ext ?E w" by simp
    with at_ext b show ?thesis by (simp add: snapshot_stages)
  next
    case (at_users e)
    with t have "w1 = w_users ?E P w" by simp
    with at_users b show ?thesis by (simp add: snapshot_stages)
  next
    case (at_customers e)
    with t have "w1 = w_customers ?E P w" by simp
    with at_customers b show ?thesis by (simp add: snapshot_stages)
  next
    case (at_invoices e)
    with t have "w1 = w_invoices ?E P w" by simp
    with at_invoices b show ?thesis by (simp add: snapshot_stages)
  next
    case (at_revenue e)
    with t have "w1 = w_revenue ?E P w" by simp
    with at_revenue b show ?thesis by (simp add: snapshot_stages)
  next
    case (at_commit e)
    with t have w1: "w1 = w_commit ?E P w" by simp
    from at_commit have "snapshot (ext (w_commit ?E P w)) = snapshot (ext (w_revenue ?E P w))"
      by (simp add: w_commit_def sql_snd sql_fst pg_env_simps pg_commit_rejected)
    with at_commit b w1 show ?thesis by (simp add: snapshot_stages)
  next
    case seeded
    with t show ?thesis by simp
  qed
qed

lemma committed_mark_failed: "committed (mark_failed d) = committed d"
  by (simp add: committed_def mark_failed_def split: option.split)

lemma seed_try_failed_committed:
  assumes "seed_try (pg_env refuse ok hashf ord) P w = (Inl e, w1)"
  shows "committed (ext w1) = committed (ext w)"
  using seed_try_failed_snapshot [OF assms] by (auto simp: committed_def)

text \<open>
  C1, as amended. On a PostgreSQL session: whenever an error reaches the \<^verbatim>\<open>catch\<close>
  block (a table or extension statement fails, an exception escapes a step, \<^verbatim>\<open>BEGIN\<close>
  or \<^verbatim>\<open>COMMIT\<close> fails: these are all the ways, by \<open>seed_try_throws_iff\<close>),
  \<^verbatim>\<open>ROLLBACK\<close> is the last statement sent, and the tables outside the transaction block
  are what they were before the invocation, whether \<^verbatim>\<open>ROLLBACK\<close> is accepted or not: no
  row inserted earlier in the invocation persists. When \<^verbatim>\<open>ROLLBACK\<close> is accepted, no
  block is open any more, the tables the session sees are those, the error is logged on the
  console, and the response is status 500 with the fixed text, in which nothing of the
  error appears. When \<^verbatim>\<open>ROLLBACK\<close> is rejected, the handler rejects.
\<close>

theorem seed_failure_rolls_back:
  assumes "fst (seed_try (pg_env refuse ok hashf ord) P w) = Inl e"
  shows "(\<exists>pre. sent (calls (snd (GET_seed (pg_env refuse ok hashf ord) P w))) = pre @ [ROLLBACK])
     \<and> committed (ext (snd (GET_seed (pg_env refuse ok hashf ord) P w))) = committed (ext w)
     \<and> (\<not> refuse ROLLBACK \<longrightarrow>
          fst (GET_seed (pg_env refuse ok hashf ord) P w) =
            Inr \<lparr>status = 500, headers = [(''content-type'', ''text/plain;charset=UTF-8'')],
                 body = ''Error seeding database''\<rparr>
          \<and> live (ext (snd (GET_seed (pg_env refuse ok hashf ord) P w))) = committed (ext w)
          \<and> snapshot (ext (snd (GET_seed (pg_env refuse ok hashf ord) P w))) = None
          \<and> console (snd (GET_seed (pg_env refuse ok hashf ord) P w)) =
              console (snd (seed_try (pg_env refuse ok hashf ord) P w))
                @ [(''Error during database seeding:'', e)])
     \<and> (refuse ROLLBACK \<longrightarrow>
          fst (GET_seed (pg_env refuse ok hashf ord) P w) = Inl (Error ''statement refused''))"
proof -
  let ?E = "pg_env refuse ok hashf ord"
  obtain w1 where t: "seed_try ?E P w = (Inl e, w1)"
    using assms(1) by (cases "seed_try ?E P w") simp
  have c1: "committed (ext w1) = committed (ext w)"
    by (rule seed_try_failed_committed [OF t])
  have s: "\<exists>pre. sent (calls (snd (GET_seed ?E P w))) = pre @ [ROLLBACK]"
    by (simp add: GET_seed_failed_calls [OF t] sent_append)
  have accepted: "fst (GET_seed ?E P w) =
            Inr \<lparr>status = 500, headers = [(''content-type'', ''text/plain;charset=UTF-8'')],
                 body = ''Error seeding database''\<rparr>
          \<and> live (ext (snd (GET_seed ?E P w))) = committed (ext w)
          \<and> snapshot (ext (snd (GET_seed ?E P w))) = None
          \<and> console (snd (GET_seed ?E P w)) =
              console (snd (seed_try ?E P w)) @ [(''Error during database seeding:'', e)]"
    if n: "\<not> refuse ROLLBACK"
  proof -
    have r: "client_sql ?E ROLLBACK (ext w1) = (Inr [], end_block True (ext w1))"
      using pg_rollback [of refuse, OF n] by (simp add: pg_env_simps)
    have g: "GET_seed ?E P w =
       (Inr (Response_new ''Error seeding database'' (Some 500) []),
        console_error ''Error during database seeding:'' e (snd (sql ?E ROLLBACK w1)))"
      by (simp add: GET_seed_failed [OF t] r)
    have "live (end_block True (ext w1)) = committed (ext w1)"
      by (simp add: end_block_def committed_def)
    then show ?thesis
      by (simp add: g t c1 console_error_def sql_snd r end_block_def Response_new_plain)
  qed
  have refused: "fst (GET_seed ?E P w) = Inl (Error ''statement refused'')
      \<and> committed (ext (snd (GET_seed ?E P w))) = committed (ext w)"
    if y: "refuse ROLLBACK"
  proof -
    have r: "client_sql ?E ROLLBACK (ext w1) = (Inl (Error ''statement refused''), mark_failed (ext w1))"
      using y by (simp add: pg_env_simps pg_sql_def)
    then show ?thesis
      by (simp add: GET_seed_failed [OF t] sql_snd c1 committed_mark_failed)
  qed
  have c: "committed (ext (snd (GET_seed ?E P w))) = committed (ext w)"
  proof (cases "refuse ROLLBACK")
    case True
    then show ?thesis using refused by simp
  next
    case False
    with accepted show ?thesis by (simp add: committed_def)
  qed
  from s c accepted refused show ?thesis
    by blast
qed

theorem seed_failure_rolls_back_witness:
  "fst (seed_try (pg_env refuse_invoices_table True demo_hash []) demo_data (start fresh_pg))
       = Inl (Error ''statement refused'')
   \<and> \<not> refuse_invoices_table ROLLBACK
   \<and> Sql (INSERT_customers ''d6e15727-9fe1-4961-8c5b-ea44a9bd81aa'' ''Acme''
            ''acme@example.com'' ''/acme.png'') (Inr [])
       \<in> set (calls (snd (GET_seed (pg_env refuse_invoices_table True demo_hash []) demo_data
                             (start fresh_pg))))
   \<and> fst (GET_seed (pg_env refuse_invoices_table True demo_hash []) demo_data (start fresh_pg)) =
           Inr \<lparr>status = 500, headers = [(''content-type'', ''text/plain;charset=UTF-8'')],
                body = ''Error seeding database''\<rparr>
   \<and> live (ext (snd (GET_seed (pg_env refuse_invoices_table True demo_hash []) demo_data
                        (start fresh_pg)))) = empty_tables
   \<and> fst (seed_try (pg_env refuse_invoices_table_and_rollback True demo_hash []) demo_data
            (start fresh_pg)) = Inl (Error ''statement refused'')
   \<and> refuse_invoices_table_and_rollback ROLLBACK
   \<and> committed (ext (snd (GET_seed (pg_env refuse_invoices_table_and_rollback True demo_hash [])
                             demo_data (start fresh_pg)))) = empty_tables"
proof -
  have b: "fst (seed_try (pg_env refuse_invoices_table True demo_hash []) demo_data (start fresh_pg))
       = Inl (Error ''statement refused'')"
    by code_simp
  have c: "\<not> refuse_invoices_table ROLLBACK"
    by (simp add: refuse_invoices_table_def)
  have d: "Sql (INSERT_customers ''d6e15727-9fe1-4961-8c5b-ea44a9bd81aa'' ''Acme''
            ''acme@example.com'' ''/acme.png'') (Inr [])
       \<in> set (calls (snd (GET_seed (pg_env refuse_invoices_table True demo_hash []) demo_data
                             (start fresh_pg))))"
    by code_simp
  have e: "committed (ext (start fresh_pg)) = empty_tables"
    by (simp add: start_def fresh_pg_def committed_def)
  have b2: "fst (seed_try (pg_env refuse_invoices_table_and_rollback True demo_hash []) demo_data
            (start fresh_pg)) = Inl (Error ''statement refused'')"
    by code_simp
  have c2: "refuse_invoices_table_and_rollback ROLLBACK"
    by (simp add: refuse_invoices_table_and_rollback_def)
  from seed_failure_rolls_back [OF b] seed_failure_rolls_back [OF b2] b c d b2 c2 show ?thesis
    by (simp add: e)
qed

text \<open>
  C1, as stated, fails when the \<^verbatim>\<open>ROLLBACK\<close> statement is rejected too (as it is when the
  table statement failed because the connection is gone): the \<^verbatim>\<open>await\<close> in the catch
  block throws, and the handler returns no response.
\<close>

theorem seed_failure_and_refused_rollback:
  "Sql CREATE_TABLE_invoices (Inl (Error ''statement refused''))
       \<in> set (calls (snd (GET_seed (pg_env refuse_invoices_table_and_rollback True demo_hash [])
                             demo_data (start fresh_pg))))
   \<and> fst (GET_seed (pg_env refuse_invoices_table_and_rollback True demo_hash []) demo_data
            (start fresh_pg))
       = Inl (Error ''statement refused'')"
  by code_simp

section \<open>Invariants of a seed invocation\<close>

text \<open>
  A property of the collaborators' state that every statement the handler may send, and
  every hash, preserves holds after the invocation.
\<close>

lemma GET_seed_inv:
  assumes sqlI: "\<And>s x. allowed s \<Longrightarrow> I x \<Longrightarrow> I (snd (client_sql E s x))"
    and hashI: "\<And>p c x. I x \<Longrightarrow> I (snd (bcrypt_hash E p c x))"
    and fixed: "allowed BEGIN" "allowed COMMIT" "allowed ROLLBACK" "allowed CREATE_EXTENSION"
      "allowed CREATE_TABLE_users" "allowed CREATE_TABLE_customers"
      "allowed CREATE_TABLE_invoices" "allowed CREATE_TABLE_revenue"
    and rows: "\<And>c. allowed (customer_stmt c)" "\<And>i. allowed (invoice_stmt i)"
      "\<And>r. allowed (revenue_stmt r)"
    and hashed: "\<And>u h y. u \<in> set (users P) \<Longrightarrow> fst (bcrypt_hash E (u_password u) 10 y) = Inr h
        \<Longrightarrow> allowed (user_stmt (u, h))"
    and start: "I (ext w)"
  shows "I (ext (snd (GET_seed E P w)))"
proof -
  have 1: "I (ext (w_begin E w))"
    by (simp add: w_begin_def sql_snd sqlI fixed start)
  have 2: "I (ext (w_ext E w))"
    by (simp add: w_ext_def createExtensions_snd sql_snd sqlI fixed 1)
  have 3: "I (ext (w_users E P w))"
    unfolding w_users_def
    by (rule seedUsers_inv) (auto intro: sqlI hashI fixed hashed 2)
  have 4: "I (ext (w_customers E P w))"
    unfolding w_customers_def seedCustomers_shape
    by (rule ddl_rows_inv) (auto intro: sqlI fixed rows 3)
  have 5: "I (ext (w_invoices E P w))"
    unfolding w_invoices_def seedInvoices_shape
    by (rule ddl_rows_inv) (auto intro: sqlI fixed rows 4)
  have 6: "I (ext (w_revenue E P w))"
    unfolding w_revenue_def seedRevenue_shape
    by (rule ddl_rows_inv) (auto intro: sqlI fixed rows 5)
  have 7: "I (ext (w_commit E P w))"
    by (simp add: w_commit_def sql_snd sqlI fixed 6)
  have failed: "I (ext (snd (GET_seed E P w)))"
    if "seed_try E P w = (Inl e, w1)" and "I (ext w1)" for e w1
    using that
    by (simp add: GET_seed_failed sql_snd console_error_def sqlI fixed split: sum.split)
  show ?thesis
  proof (cases rule: seed_try_cases [where E = E and w = w and P = P])
    case (at_begin e)
    then show ?thesis using failed 1 by blast
  next
    case (at_ext e)
    then show ?thesis using failed 2 by blast
  next
    case (at_users e)
    then show ?thesis using failed 3 by blast
  next
    case (at_customers e)
    then show ?thesis using failed 4 by blast
  next
    case (at_invoices e)
    then show ?thesis using failed 5 by blast
  next
    case (at_revenue e)
    then show ?thesis using failed 6 by blast
  next
    case (at_commit e)
    then show ?thesis using failed 7 by blast
  next
    case seeded
    then show ?thesis using 7 by (simp add: GET_seed_ok)
  qed
qed

section \<open>The passwords in the users table\<close>

lemma users_rows_simps:
  "users_rows (t\<lparr>uuid_ossp := b\<rparr>) = users_rows t"
  "users_rows (t\<lparr>t_customers := cs\<rparr>) = users_rows t"
  "users_rows (t\<lparr>t_invoices := is\<rparr>) = users_rows t"
  "users_rows (t\<lparr>t_revenue := rs\<rparr>) = users_rows t"
  "users_rows (t\<lparr>t_users := Some us\<rparr>) = us"
  by (simp_all add: users_rows_def)

lemma users_rows_Some: "t_users t = Some us \<Longrightarrow> users_rows t = us"
  by (simp add: users_rows_def)

lemma users_values_Inr:
  assumes "users_values i n e p = Inr row"
  shows "uuid_in i = Some (u_id row) \<and> varchar 255 n = Some (u_name row)
     \<and> u_email row = e \<and> u_password row = p"
  using assms by (auto simp: users_values_def split: option.splits)

lemma kept_pg_run:
  assumes "hashed_insert hashf P s" and "kept_pg old hashf P d" and "pg_run s d = Inr (rows, d1)"
  shows "kept_pg old hashf P d1"
proof (cases s)
  case (INSERT_users i n e p)
  with assms(3) obtain us row where us: "t_users (live d) = Some us"
    and row: "users_values i n e p = Inr row"
    by (auto split: option.splits sum.splits)
  show ?thesis
  proof (cases "u_id row \<in> set (map u_id us)")
    case True
    with assms us row INSERT_users show ?thesis by simp
  next
    case False
    with assms(3) us row INSERT_users have
      d1: "d1 = on_live (\<lambda>t. t\<lparr>t_users := Some (us @ [row])\<rparr>) d"
      by (auto split: if_splits)
    from assms(1) INSERT_users users_values_Inr [OF row]
    have "hashed_row hashf P row"
      by (auto simp: hashed_insert_def hashed_row_def)
    with assms(2) users_rows_Some [OF us] show ?thesis
      unfolding d1 by (auto simp: kept_pg_def kept_def on_live_def users_rows_simps)
  qed
next
  case BEGIN
  with assms show ?thesis by (auto simp: kept_pg_def split: if_splits)
next
  case COMMIT
  with assms show ?thesis by (auto simp: kept_pg_def end_block_def split: option.splits)
next
  case ROLLBACK
  with assms show ?thesis by (auto simp: kept_pg_def end_block_def split: option.splits)
next
  case CREATE_TABLE_users
  with assms show ?thesis
    by (auto simp: kept_pg_def kept_def on_live_def users_rows_simps split: if_splits)
qed (use assms in \<open>auto simp: kept_pg_def kept_def on_live_def users_rows_simps
        split: option.splits if_splits sum.splits\<close>)

lemma kept_mark_failed: "kept_pg old hashf P (mark_failed d) = kept_pg old hashf P d"
  by (simp add: kept_pg_def mark_failed_def)

lemma kept_pg_sql:
  assumes "hashed_insert hashf P s" and "kept_pg old hashf P d"
  shows "kept_pg old hashf P (snd (pg_sql refuse s d))"
proof (cases "pg_run s d")
  case (Inl e)
  with assms show ?thesis by (simp add: pg_sql_def kept_mark_failed)
next
  case (Inr r)
  then obtain rows d1 where r: "pg_run s d = Inr (rows, d1)" by (cases r) simp
  from kept_pg_run [OF assms r] assms(2) r show ?thesis
    by (simp add: pg_sql_def kept_mark_failed)
qed

lemma user_stmt_hashed:
  assumes "u \<in> set (users P)" and "hashf (u_password u) 10 = Inr h"
  shows "hashed_insert hashf P (user_stmt (u, h))"
  using assms by (auto simp: hashed_insert_def user_stmt_def)

lemma kept_GET_seed:
  assumes "kept_pg old hashf P (ext w)"
  shows "kept_pg old hashf P (ext (snd (GET_seed (pg_env refuse ok hashf ord) P w)))"
proof (rule GET_seed_inv [where allowed = "hashed_insert hashf P"])
  fix s x
  assume "hashed_insert hashf P s" and "kept_pg old hashf P x"
  then show "kept_pg old hashf P (snd (client_sql (pg_env refuse ok hashf ord) s x))"
    by (simp add: pg_env_simps kept_pg_sql)
next
  fix u h y
  assume "u \<in> set (users P)"
    and "fst (bcrypt_hash (pg_env refuse ok hashf ord) (u_password u) 10 y) = Inr h"
  then show "hashed_insert hashf P (user_stmt (u, h))"
    by (simp add: pg_env_simps user_stmt_hashed)
qed (simp_all add: pg_env_simps hashed_insert_def customer_stmt_def invoice_stmt_def
       revenue_stmt_def assms)

lemma kept_settled:
  assumes "kept_pg old hashf P (ext w)"
  shows "kept_pg old hashf P
     (ext (settle_pending (pg_env refuse ok hashf ord)
            (take k (drop (length (pending w))
               (pending (snd (GET_seed (pg_env refuse ok hashf ord) P w)))))
            (snd (GET_seed (pg_env refuse ok hashf ord) P w))))"
proof (rule settle_pending_inv)
  fix u h x
  from GET_seed_pending [of "pg_env refuse ok hashf ord" P w] obtain left where
    l: "pending (snd (GET_seed (pg_env refuse ok hashf ord) P w)) = pending w @ left"
    "\<forall>(u, r) \<in> set left. u \<in> set (users P)
        \<and> (\<exists>y. r = fst (bcrypt_hash (pg_env refuse ok hashf ord) (u_password u) 10 y))"
    by blast
  assume "(u, Inr h) \<in> set (take k (drop (length (pending w))
      (pending (snd (GET_seed (pg_env refuse ok hashf ord) P w)))))"
    and x: "kept_pg old hashf P x"
  then have "(u, Inr h) \<in> set left"
    unfolding l(1) by (auto dest: in_set_takeD)
  with l(2) have "u \<in> set (users P)" and "hashf (u_password u) 10 = Inr h"
    by (auto simp: pg_env_simps)
  then have "hashed_insert hashf P (user_stmt (u, h))"
    by (rule user_stmt_hashed)
  with x show "kept_pg old hashf P (snd (client_sql (pg_env refuse ok hashf ord) (user_stmt (u, h)) x))"
    by (simp add: pg_env_simps kept_pg_sql)
next
  show "kept_pg old hashf P (ext (snd (GET_seed (pg_env refuse ok hashf ord) P w)))"
    using assms(1) by (rule kept_GET_seed)
qed

text \<open>
  C8, as amended. On a PostgreSQL session, with a hash that never returns the plaintext
  password of a placeholder user, and with a users table in which no row holds such a
  plaintext before the invocation (in the table, and in the table as it was before the
  transaction block, should one be open): no row of the users table holds the plaintext
  password of a placeholder user after the invocation. Every row is then one that was there
  before, or the row of a placeholder user with the password that the hash returned for
  the plaintext at cost 10. This holds when the handler returns (\<open>k = 0\<close>) and after any
  number \<open>k\<close> of the callbacks that the invocation has left in flight have sent their
  inserts.
\<close>

theorem seeded_passwords_are_hashed:
  assumes "\<forall>u \<in> set (users P). \<forall>v \<in> set (users P). hashf (u_password u) 10 \<noteq> Inr (u_password v)"
    and "\<forall>r \<in> set (users_rows (live (ext w))) \<union> set (users_rows (committed (ext w))).
           \<forall>u \<in> set (users P). u_password r \<noteq> u_password u"
  shows "\<forall>r \<in> set (users_rows (live (ext
              (settle_pending (pg_env refuse ok hashf ord)
                 (take k (drop (length (pending w))
                    (pending (snd (GET_seed (pg_env refuse ok hashf ord) P w)))))
                 (snd (GET_seed (pg_env refuse ok hashf ord) P w)))))).
           (\<forall>u \<in> set (users P). u_password r \<noteq> u_password u)
           \<and> (r \<in> set (users_rows (live (ext w))) \<or> r \<in> set (users_rows (committed (ext w)))
                \<or> hashed_row hashf P r)"
proof
  fix r
  let ?old = "users_rows (live (ext w)) @ users_rows (committed (ext w))"
  assume r: "r \<in> set (users_rows (live (ext
              (settle_pending (pg_env refuse ok hashf ord)
                 (take k (drop (length (pending w))
                    (pending (snd (GET_seed (pg_env refuse ok hashf ord) P w)))))
                 (snd (GET_seed (pg_env refuse ok hashf ord) P w))))))"
  have "kept_pg ?old hashf P (ext w)"
    by (simp add: kept_pg_def kept_def committed_def split: option.split)
  from kept_settled [OF this, of refuse ok ord k] r
  have c: "r \<in> set ?old \<or> hashed_row hashf P r"
    by (simp add: kept_pg_def kept_def)
  have "\<forall>u \<in> set (users P). u_password r \<noteq> u_password u"
  proof (cases "r \<in> set ?old")
    case True
    with assms(2) show ?thesis by simp
  next
    case False
    with c obtain v where "v \<in> set (users P)" "hashf (u_password v) 10 = Inr (u_password r)"
      by (auto simp: hashed_row_def)
    with assms(1) show ?thesis by metis
  qed
  with c show "(\<forall>u \<in> set (users P). u_password r \<noteq> u_password u)
           \<and> (r \<in> set (users_rows (live (ext w))) \<or> r \<in> set (users_rows (committed (ext w)))
                \<or> hashed_row hashf P r)"
    by simp
qed

text \<open>
  The example with two users in which the hash of the first user fails and the callback of
  the second is left in flight: when that callback has sent its insert, the users table
  holds the row of the second user with the hash for a password.
\<close>

lemma settled_users_rows:
  "users_rows (live (ext (settle_pending (pg_env (\<lambda>s. False) True picky_hash [])
        (take 1 (drop (length (pending (start acme_db)))
           (pending (snd (GET_seed (pg_env (\<lambda>s. False) True picky_hash []) two_users
                           (start acme_db))))))
        (snd (GET_seed (pg_env (\<lambda>s. False) True picky_hash []) two_users (start acme_db))))))
     = [\<lparr>u_id = ''410544b2-4001-4271-9855-fec4b6a6442a'', u_name = ''User'',
          u_email = ''user@nextmail.com'', u_password = ''$2b$10$123456''\<rparr>]"
  by code_simp

theorem seeded_passwords_are_hashed_witness:
  "map u_password (users two_users) = [[], ''123456'']
   \<and> picky_hash [] 10 = Inl (Error ''data and salt arguments required'')
   \<and> picky_hash ''123456'' 10 = Inr ''$2b$10$123456''
   \<and> users_rows (live (ext (start acme_db))) = []
   \<and> users_rows (committed (ext (start acme_db))) = []
   \<and> users_rows (live (ext (settle_pending (pg_env (\<lambda>s. False) True picky_hash [])
        (take 1 (drop (length (pending (start acme_db)))
           (pending (snd (GET_seed (pg_env (\<lambda>s. False) True picky_hash []) two_users
                           (start acme_db))))))
        (snd (GET_seed (pg_env (\<lambda>s. False) True picky_hash []) two_users (start acme_db))))))
       \<noteq> []
   \<and> \<not> (\<exists>r \<in> set (users_rows (live (ext (settle_pending (pg_env (\<lambda>s. False) True picky_hash [])
        (take 1 (drop (length (pending (start acme_db)))
           (pending (snd (GET_seed (pg_env (\<lambda>s. False) True picky_hash []) two_users
                           (start acme_db))))))
        (snd (GET_seed (pg_env (\<lambda>s. False) True picky_hash []) two_users (start acme_db))))))).
          u_password r = ''123456'' \<or> u_password r = [])"
proof -
  let ?E = "pg_env (\<lambda>s. False) True picky_hash []"
  let ?rows = "users_rows (live (ext (settle_pending ?E
        (take 1 (drop (length (pending (start acme_db)))
           (pending (snd (GET_seed ?E two_users (start acme_db))))))
        (snd (GET_seed ?E two_users (start acme_db))))))"
  have u: "map u_password (users two_users) = [[], ''123456'']"
    by (simp add: two_users_def)
  have h: "picky_hash [] 10 = Inl (Error ''data and salt arguments required'')"
    "picky_hash ''123456'' 10 = Inr ''$2b$10$123456''"
    by (simp_all add: picky_hash_def demo_hash_def) code_simp
  have b: "\<forall>u \<in> set (users two_users). \<forall>v \<in> set (users two_users).
      picky_hash (u_password u) 10 \<noteq> Inr (u_password v)"
    using h by (simp add: two_users_def)
  have e: "users_rows (live (ext (start acme_db))) = []"
    "users_rows (committed (ext (start acme_db))) = []"
    by (simp_all add: start_def acme_db_def users_rows_def committed_def)
  have c: "\<forall>r \<in> set (users_rows (live (ext (start acme_db))))
        \<union> set (users_rows (committed (ext (start acme_db)))).
      \<forall>u \<in> set (users two_users). u_password r \<noteq> u_password u"
    by (simp add: e)
  have n: "?rows \<noteq> []"
    by (simp only: settled_users_rows) simp
  from seeded_passwords_are_hashed [where w = "start acme_db" and P = two_users
      and hashf = picky_hash and refuse = "\<lambda>s. False" and ok = True and ord = "[]" and k = 1,
      OF b c]
  have "\<forall>r \<in> set ?rows. \<forall>u \<in> set (users two_users). u_password r \<noteq> u_password u"
    by blast
  then have "\<not> (\<exists>r \<in> set ?rows. u_password r = ''123456'' \<or> u_password r = [])"
    by (auto simp: two_users_def)
  with u h e n show ?thesis by blast
qed

text \<open>
  C8, as stated, fails on a database whose users table already holds the row of a
  placeholder user with the plaintext password: the insert of that user meets the key and
  does nothing, the invocation answers that the database was seeded, and the row is left
  with the plaintext.
\<close>

theorem plaintext_row_is_kept:
  "map u_password (users demo_data) = [''123456'']
   \<and> fst (GET_seed demo_env demo_data (start plain_db)) =
       Inr \<lparr>status = 200, headers = [(''content-type'', ''text/plain;charset=UTF-8'')],
            body = ''Database seeded successfully''\<rparr>
   \<and> pending (snd (GET_seed demo_env demo_data (start plain_db))) = []
   \<and> users_rows (live (ext (snd (GET_seed demo_env demo_data (start plain_db))))) =
       [\<lparr>u_id = ''410544b2-4001-4271-9855-fec4b6a6442a'', u_name = ''User'',
          u_email = ''user@nextmail.com'', u_password = ''123456''\<rparr>]"
  by code_simp

section \<open>Seeding twice\<close>

text \<open>
  C2 fails for the invoices table. The invoices insert names no \<^verbatim>\<open>id\<close> column, so every
  execution generates a new key and \<^verbatim>\<open>ON CONFLICT (id) DO NOTHING\<close> never finds a conflict:
  a second seed invocation on the example data reports success, logs nothing, leaves the
  users, customers and revenue tables as they were, and inserts every invoice a second time.
\<close>

theorem second_seed_duplicates_invoices:
  "map_option (map snd) (t_invoices (live (ext seeded_once))) = Some (invoices demo_data)
   \<and> map_option (map snd) (t_invoices (live (ext seeded_twice)))
       = Some (invoices demo_data @ invoices demo_data)
   \<and> fst (GET_seed demo_env demo_data (start (ext seeded_once))) =
       Inr \<lparr>status = 200, headers = [(''content-type'', ''text/plain;charset=UTF-8'')],
            body = ''Database seeded successfully''\<rparr>
   \<and> console seeded_twice = []
   \<and> t_users (live (ext seeded_twice)) = t_users (live (ext seeded_once))
   \<and> t_customers (live (ext seeded_twice)) = t_customers (live (ext seeded_once))
   \<and> t_revenue (live (ext seeded_twice)) = t_revenue (live (ext seeded_once))"
  by code_simp

end
